theory Spec2Isabelle
  imports Complex_Main "HOL-Library.Multiset" "HOL-Library.Sublist"
begin

section \<open>Python strings\<close>

text \<open>
  Commands are Python \<open>str\<close> values. They are modelled as \<^typ>\<open>string\<close>, one
  \<^typ>\<open>char\<close> per character, so the model covers ASCII text. Confidence values are
  Python floats; they are modelled as exact rationals (\<^typ>\<open>rat\<close>), so rounding is
  not part of the model.
\<close>

definition py_isspace :: "char \<Rightarrow> bool" where
  "py_isspace c = (let n = (of_char c :: nat) in (9 \<le> n \<and> n \<le> 13) \<or> (28 \<le> n \<and> n \<le> 32))"

definition lower_char :: "char \<Rightarrow> char" where
  "lower_char c = (let n = (of_char c :: nat) in if 65 \<le> n \<and> n \<le> 90 then char_of (n + 32) else c)"

definition upper_char :: "char \<Rightarrow> char" where
  "upper_char c = (let n = (of_char c :: nat) in if 97 \<le> n \<and> n \<le> 122 then char_of (n - 32) else c)"

definition str_lower :: "string \<Rightarrow> string" where
  "str_lower s = map lower_char s"

definition str_strip :: "string \<Rightarrow> string" where
  "str_strip s = rev (dropWhile py_isspace (rev (dropWhile py_isspace s)))"

fun startswith :: "string \<Rightarrow> string \<Rightarrow> bool" where
  "startswith s [] = True"
| "startswith [] (p # ps) = False"
| "startswith (c # cs) (p # ps) = (c = p \<and> startswith cs ps)"

text \<open>\<open>sub in s\<close> on strings: \<open>sub\<close> occurs in \<open>s\<close> as a contiguous substring.\<close>

fun str_contains :: "string \<Rightarrow> string \<Rightarrow> bool" where
  "str_contains [] sub = (sub = [])"
| "str_contains (c # cs) sub = (startswith (c # cs) sub \<or> str_contains cs sub)"

text \<open>\<open>s.replace(a, b)\<close> for a single character \<open>a\<close>.\<close>

definition replace_char :: "char \<Rightarrow> char \<Rightarrow> string \<Rightarrow> string" where
  "replace_char a b s = map (\<lambda>c. if c = a then b else c) s"

text \<open>\<open>sep.join(xs)\<close>.\<close>

fun str_join :: "string \<Rightarrow> string list \<Rightarrow> string" where
  "str_join sep [] = []"
| "str_join sep [x] = x"
| "str_join sep (x # y # ys) = x @ sep @ str_join sep (y # ys)"

text \<open>A slice \<open>xs[:n]\<close> with Python's treatment of a negative bound.\<close>

definition slice_to :: "int \<Rightarrow> 'a list \<Rightarrow> 'a list" where
  "slice_to n xs = (if 0 \<le> n then take (nat n) xs else take (length xs - nat (- n)) xs)"

section \<open>Regular expressions of the \<open>re\<close> module\<close>

text \<open>
  The pattern tables of the program are regular expressions that Python's \<open>re\<close> module
  runs with a backtracking matcher: alternatives are tried left to right, quantifiers are
  greedy, and \<open>re.search\<close> returns the first match at the leftmost start position. The
  matcher below returns, for a pattern and a position, every way the pattern can match
  there, in the order the backtracking matcher would find them; the head of that list is
  the match Python reports. The syntax covers what the program's patterns use; every
  pattern of the program has at most one capturing group, so one capture is tracked.
\<close>

datatype rx =
    Chr char
  | Dot
  | Cls bool "(char \<times> char) list"
  | Seq rx rx
  | Alt rx rx
  | Rep rx nat "nat option"
  | Grp rx
  | Bol
  | Eol

text \<open>
  \<open>Cls neg rs\<close> is a character class \<open>[...]\<close> (\<open>[^...]\<close> when \<open>neg\<close>) given by inclusive
  ranges; \<open>Rep r m n\<close> is the greedy \<open>r{m,n}\<close>, with \<open>None\<close> for an open upper bound;
  \<open>Grp\<close> is the capturing group; \<open>Bol\<close> and \<open>Eol\<close> are \<open>^\<close> and \<open>$\<close>.
\<close>

definition lit :: "string \<Rightarrow> rx" where
  "lit s = foldr (\<lambda>c r. Seq (Chr c) r) (butlast s) (Chr (last s))"

fun seqs :: "rx list \<Rightarrow> rx" where
  "seqs [r] = r"
| "seqs (r # rs) = Seq r (seqs rs)"
| "seqs [] = Rep Dot 0 (Some 0)"

fun alts :: "rx list \<Rightarrow> rx" where
  "alts [r] = r"
| "alts (r # rs) = Alt r (alts rs)"
| "alts [] = Cls False []"

definition star :: "rx \<Rightarrow> rx" where "star r = Rep r 0 None"
definition plus :: "rx \<Rightarrow> rx" where "plus r = Rep r 1 None"
definition opt :: "rx \<Rightarrow> rx" where "opt r = Rep r 0 (Some 1)"

text \<open>\<open>\s\<close>, \<open>[^\s]\<close>, \<open>\d\<close> and the classes of letters the patterns use.\<close>

definition ws_ranges :: "(char \<times> char) list" where
  "ws_ranges = [(CHR 0x09, CHR 0x0D), (CHR 0x1C, CHR 0x20)]"

definition ws :: rx where "ws = Cls False ws_ranges"
definition nonws :: rx where "nonws = Cls True ws_ranges"
definition digit :: rx where "digit = Cls False [(CHR ''0'', CHR ''9'')]"
definition az :: rx where "az = Cls False [(CHR ''a'', CHR ''z'')]"
definition AZ :: rx where "AZ = Cls False [(CHR ''A'', CHR ''Z'')]"
definition azAZ :: rx where "azAZ = Cls False [(CHR ''a'', CHR ''z''), (CHR ''A'', CHR ''Z'')]"
definition alnum :: rx where
  "alnum = Cls False [(CHR ''a'', CHR ''z''), (CHR ''A'', CHR ''Z''), (CHR ''0'', CHR ''9'')]"
definition alnum_dash :: rx where
  "alnum_dash = Cls False [(CHR ''a'', CHR ''z''), (CHR ''A'', CHR ''Z''), (CHR ''0'', CHR ''9''),
                           (CHR ''-'', CHR ''-'')]"

definition in_ranges :: "(char \<times> char) list \<Rightarrow> char \<Rightarrow> bool" where
  "in_ranges rs c = list_ex (\<lambda>(lo, hi). (of_char lo :: nat) \<le> of_char c \<and> (of_char c :: nat) \<le> of_char hi) rs"

text \<open>With \<open>re.IGNORECASE\<close> a character matches when either of its cases does.\<close>

definition chr_matches :: "bool \<Rightarrow> char \<Rightarrow> char \<Rightarrow> bool" where
  "chr_matches icase c x = (if icase then lower_char x = lower_char c else x = c)"

definition cls_matches :: "bool \<Rightarrow> bool \<Rightarrow> (char \<times> char) list \<Rightarrow> char \<Rightarrow> bool" where
  "cls_matches icase neg rs x =
     (let hit = (in_ranges rs x \<or> (icase \<and> (in_ranges rs (lower_char x) \<or> in_ranges rs (upper_char x))))
      in if neg then \<not> hit else hit)"

text \<open>
  A matcher state is the text still to be read and the capture of the group so far.
  \<open>rep_iter f k m n\<close> runs the greedy repetition of \<open>f\<close>: it first tries one more
  iteration (unless the upper bound \<open>n\<close> is used up), then stopping (allowed once the
  lower bound \<open>m\<close> is met). An iteration that reads nothing ends the repetition, as it
  does in \<open>re\<close>; so every iteration shortens the text, and the counter \<open>k\<close>, started
  above the length of the text, never runs out before the text does.
\<close>

type_synonym mstate = "string \<times> string option"

fun rep_iter :: "(mstate \<Rightarrow> mstate list) \<Rightarrow> nat \<Rightarrow> nat \<Rightarrow> nat option \<Rightarrow> mstate \<Rightarrow> mstate list" where
  "rep_iter f 0 m n st = (if m = 0 then [st] else [])"
| "rep_iter f (Suc k) m n st =
     (if n = Some 0 then [st]
      else concat (map (\<lambda>st'. if length (fst st') < length (fst st)
                              then rep_iter f k (m - 1) (map_option (\<lambda>j. j - 1) n) st'
                              else if m \<le> 1 then [st'] else [])
                       (f st))
           @ (if m = 0 then [st] else []))"

primrec mt :: "bool \<Rightarrow> nat \<Rightarrow> rx \<Rightarrow> mstate \<Rightarrow> mstate list" where
  "mt icase len (Chr c) st =
     (case fst st of [] \<Rightarrow> [] | x # t \<Rightarrow> if chr_matches icase c x then [(t, snd st)] else [])"
| "mt icase len Dot st =
     (case fst st of [] \<Rightarrow> [] | x # t \<Rightarrow> if x \<noteq> CHR 0x0A then [(t, snd st)] else [])"
| "mt icase len (Cls neg rs) st =
     (case fst st of [] \<Rightarrow> [] | x # t \<Rightarrow> if cls_matches icase neg rs x then [(t, snd st)] else [])"
| "mt icase len (Seq a b) st = concat (map (mt icase len b) (mt icase len a st))"
| "mt icase len (Alt a b) st = mt icase len a st @ mt icase len b st"
| "mt icase len (Rep r m n) st = rep_iter (mt icase len r) (Suc (length (fst st))) m n st"
| "mt icase len (Grp r) st =
     map (\<lambda>st'. (fst st', Some (take (length (fst st) - length (fst st')) (fst st))))
         (mt icase len r st)"
| "mt icase len Bol st = (if length (fst st) = len then [st] else [])"
| "mt icase len Eol st = (if fst st = [] \<or> fst st = [CHR 0x0A] then [st] else [])"

text \<open>
  A match object: \<open>group0\<close> is \<open>match.group(0)\<close>, \<open>groups\<close> is \<open>match.groups()\<close> (empty
  when the pattern has no group; a group that took no part in the match is \<open>None\<close>).
\<close>

record match_obj =
  group0 :: string
  groups :: "string option list"

primrec has_group :: "rx \<Rightarrow> bool" where
  "has_group (Chr c) = False"
| "has_group Dot = False"
| "has_group (Cls neg rs) = False"
| "has_group (Seq a b) = (has_group a \<or> has_group b)"
| "has_group (Alt a b) = (has_group a \<or> has_group b)"
| "has_group (Rep r m n) = has_group r"
| "has_group (Grp r) = True"
| "has_group Bol = False"
| "has_group Eol = False"

definition match_at :: "bool \<Rightarrow> nat \<Rightarrow> rx \<Rightarrow> string \<Rightarrow> match_obj option" where
  "match_at icase len r s =
     (case mt icase len r (s, None) of
        [] \<Rightarrow> None
      | st # _ \<Rightarrow> Some \<lparr> group0 = take (length s - length (fst st)) s,
                        groups = (if has_group r then [snd st] else []) \<rparr>)"

text \<open>\<open>re.search\<close> tries the start positions from left to right, the end of the text included.\<close>

fun search_from :: "bool \<Rightarrow> nat \<Rightarrow> rx \<Rightarrow> string \<Rightarrow> match_obj option" where
  "search_from icase len r [] = match_at icase len r []"
| "search_from icase len r (c # cs) =
     (case match_at icase len r (c # cs) of
        Some m \<Rightarrow> Some m
      | None \<Rightarrow> search_from icase len r cs)"

definition re_search :: "bool \<Rightarrow> rx \<Rightarrow> string \<Rightarrow> match_obj option" where
  "re_search icase r s = search_from icase (length s) r s"

definition re_match :: "bool \<Rightarrow> rx \<Rightarrow> string \<Rightarrow> match_obj option" where
  "re_match icase r s = match_at icase (length s) r s"

section \<open>The decision brain: data\<close>

text \<open>
  A pattern is kept as its source text together with its syntax tree. The text of a
  pattern that contains backslashes is written as the list of its pieces between the
  backslashes.
\<close>

type_synonym pattern = "string \<times> rx"

definition re_text :: "string list \<Rightarrow> string" where
  "re_text segs = str_join [CHR 0x5C] segs"

text \<open>Python dictionaries whose order matters are association lists with distinct keys.\<close>

fun dict_set :: "'k \<Rightarrow> 'v \<Rightarrow> ('k \<times> 'v) list \<Rightarrow> ('k \<times> 'v) list" where
  "dict_set k v [] = [(k, v)]"
| "dict_set k v ((k', v') # d) = (if k = k' then (k, v) # d else (k', v') # dict_set k v d)"

datatype py_error = ZeroDivisionError | AttributeError | IndexError | KeyError

text \<open>
  Entity values are what \<open>group(1)\<close> returns: a string, or \<open>None\<close> for a group that took
  no part in the match.
\<close>

type_synonym entities = "(string \<times> string option) list"

record IntentMatch =
  intent :: string
  confidence :: rat
  matched_pattern :: string
  extracted_entities :: entities

record kb_entry =
  actions :: "string list"
  priority :: "string list"
  context_sensitive :: bool
  requires_topic :: bool

record session_ctx =
  last_intent :: "string option"
  time_of_day :: string

record history_entry =
  h_command :: string
  h_intent :: string
  h_action :: "string option"

record DecisionResult =
  dr_success :: bool
  dr_action :: "string option"
  dr_automation_command :: "string option"
  dr_parameters :: "entities option"
  dr_confidence :: rat
  dr_intent :: "string option"
  dr_clarification_needed :: bool
  dr_clarification_message :: "string option"
  dr_alternatives :: "string list option"

text \<open>
  The fields of a \<open>DecisionBrain\<close> object. \<open>user_preferences\<close> is a
  \<open>defaultdict(Counter)\<close>: a missing intent reads as the empty counter, and a counter
  keeps its keys in insertion order. The timing statistics are not modelled.
\<close>

record brain =
  confidence_threshold :: rat
  max_alternatives :: int
  learning_enabled :: bool
  context_window :: int
  knowledge_base :: "(string \<times> kb_entry) list"
  intent_patterns :: "(string \<times> (string \<times> pattern list) list) list"
  entity_extractors :: "(string \<times> pattern list) list"
  conversation_history :: "history_entry list"
  session_context :: session_ctx
  user_preferences :: "(string \<times> (string \<times> int) list) list"
  total_decisions :: nat
  successful_decisions :: nat
  clarifications_needed :: nat

subsection \<open>The tables set up by the constructor\<close>

definition intent_patterns_table :: "(string \<times> (string \<times> pattern list) list) list" where
  "intent_patterns_table = [
    (''find_video'', [
       (''high_confidence'',
        [(re_text [''show me.*video.*about'', ''s+(.+)''],
          seqs [lit ''show me'', star Dot, lit ''video'', star Dot, lit ''about'', plus ws, Grp (plus Dot)]),
         (re_text [''find.*video.*on'', ''s+(.+)''],
          seqs [lit ''find'', star Dot, lit ''video'', star Dot, lit ''on'', plus ws, Grp (plus Dot)]),
         (''search.*video.*(.+)'',
          seqs [lit ''search'', star Dot, lit ''video'', star Dot, Grp (plus Dot)]),
         (''want.*watch.*video.*(.+)'',
          seqs [lit ''want'', star Dot, lit ''watch'', star Dot, lit ''video'', star Dot, Grp (plus Dot)])]),
       (''medium_confidence'',
        [(''show me.*(.+).*video'',
          seqs [lit ''show me'', star Dot, Grp (plus Dot), star Dot, lit ''video'']),
         (''find.*(.+).*video'',
          seqs [lit ''find'', star Dot, Grp (plus Dot), star Dot, lit ''video'']),
         (''watch.*(.+)'',
          seqs [lit ''watch'', star Dot, Grp (plus Dot)]),
         (''video.*(.+)'',
          seqs [lit ''video'', star Dot, Grp (plus Dot)])]),
       (''low_confidence'',
        [(''video'',
          lit ''video''),
         (''watch'',
          lit ''watch''),
         (''show'',
          lit ''show'')])]),
    (''play_music'', [
       (''high_confidence'',
        [(re_text [''play.*music.*by'', ''s+(.+)''],
          seqs [lit ''play'', star Dot, lit ''music'', star Dot, lit ''by'', plus ws, Grp (plus Dot)]),
         (re_text [''listen.*to'', ''s+(.+).*music''],
          seqs [lit ''listen'', star Dot, lit ''to'', plus ws, Grp (plus Dot), star Dot, lit ''music'']),
         (''put on.*(.+).*music'',
          seqs [lit ''put on'', star Dot, Grp (plus Dot), star Dot, lit ''music''])]),
       (''medium_confidence'',
        [(''play.*music'',
          seqs [lit ''play'', star Dot, lit ''music'']),
         (''listen.*music'',
          seqs [lit ''listen'', star Dot, lit ''music'']),
         (''some.*music'',
          seqs [lit ''some'', star Dot, lit ''music''])]),
       (''low_confidence'',
        [(''music'',
          lit ''music''),
         (''song'',
          lit ''song''),
         (''play'',
          lit ''play'')])]),
    (''get_info'', [
       (''high_confidence'',
        [(re_text [''what.*is'', ''s+(.+)''],
          seqs [lit ''what'', star Dot, lit ''is'', plus ws, Grp (plus Dot)]),
         (re_text [''tell me.*about'', ''s+(.+)''],
          seqs [lit ''tell me'', star Dot, lit ''about'', plus ws, Grp (plus Dot)]),
         (re_text [''search.*for'', ''s+(.+)''],
          seqs [lit ''search'', star Dot, lit ''for'', plus ws, Grp (plus Dot)]),
         (re_text [''explain'', ''s+(.+)''],
          seqs [lit ''explain'', plus ws, Grp (plus Dot)])]),
       (''medium_confidence'',
        [(''what.*(.+)'',
          seqs [lit ''what'', star Dot, Grp (plus Dot)]),
         (''about.*(.+)'',
          seqs [lit ''about'', star Dot, Grp (plus Dot)]),
         (''info.*(.+)'',
          seqs [lit ''info'', star Dot, Grp (plus Dot)])]),
       (''low_confidence'',
        [(''what'',
          lit ''what''),
         (''info'',
          lit ''info''),
         (''tell'',
          lit ''tell'')])]),
    (''open_website'', [
       (''high_confidence'',
        [(re_text [''open'', ''s+(https?://[^'', ''s]+)''],
          seqs [lit ''open'', plus ws, Grp (seqs [lit ''http'', opt (Chr (CHR ''s'')), lit ''://'', plus nonws])]),
         (re_text [''go to'', ''s+(www'', ''.[^'', ''s]+)''],
          seqs [lit ''go to'', plus ws, Grp (seqs [lit ''www.'', plus nonws])])]),
       (''medium_confidence'',
        [(re_text [''open'', ''s+([a-zA-Z0-9-]+'', ''.[a-zA-Z]{2,})''],
          seqs [lit ''open'', plus ws, Grp (seqs [plus alnum_dash, Chr (CHR ''.''), Rep azAZ 2 None])]),
         (re_text [''go to'', ''s+([a-zA-Z0-9-]+'', ''.[a-zA-Z]{2,})''],
          seqs [lit ''go to'', plus ws, Grp (seqs [plus alnum_dash, Chr (CHR ''.''), Rep azAZ 2 None])])]),
       (''low_confidence'',
        [(re_text [''open.*'', ''.com''],
          seqs [lit ''open'', star Dot, lit ''.com'']),
         (''website'',
          lit ''website'')])]),
    (''system_check'', [
       (''high_confidence'',
        [(''system.*status'',
          seqs [lit ''system'', star Dot, lit ''status'']),
         (''check.*system.*performance'',
          seqs [lit ''check'', star Dot, lit ''system'', star Dot, lit ''performance'']),
         (''performance.*report'',
          seqs [lit ''performance'', star Dot, lit ''report''])]),
       (''medium_confidence'',
        [(''check.*system'',
          seqs [lit ''check'', star Dot, lit ''system'']),
         (''system.*info'',
          seqs [lit ''system'', star Dot, lit ''info'']),
         (''performance'',
          lit ''performance'')]),
       (''low_confidence'',
        [(''system'',
          lit ''system''),
         (''status'',
          lit ''status''),
         (''check'',
          lit ''check'')])]),
    (''launch_app'', [
       (''high_confidence'',
        [(re_text [''open'', ''s+(notepad|calculator|paint|word|excel)''],
          seqs [lit ''open'', plus ws, Grp (alts [lit ''notepad'', lit ''calculator'', lit ''paint'', lit ''word'', lit ''excel''])]),
         (re_text [''launch'', ''s+(notepad|calculator|paint)''],
          seqs [lit ''launch'', plus ws, Grp (alts [lit ''notepad'', lit ''calculator'', lit ''paint''])])]),
       (''medium_confidence'',
        [(re_text [''open'', ''s+([a-zA-Z]+)''],
          seqs [lit ''open'', plus ws, Grp (plus azAZ)]),
         (re_text [''launch'', ''s+([a-zA-Z]+)''],
          seqs [lit ''launch'', plus ws, Grp (plus azAZ)])]),
       (''low_confidence'',
        [(''open'',
          lit ''open''),
         (''launch'',
          lit ''launch''),
         (''start'',
          lit ''start'')])]),
    (''search_web'', [
       (''high_confidence'',
        [(re_text [''google.*for'', ''s+(.+)''],
          seqs [lit ''google'', star Dot, lit ''for'', plus ws, Grp (plus Dot)]),
         (''search.*google.*(.+)'',
          seqs [lit ''search'', star Dot, lit ''google'', star Dot, Grp (plus Dot)]),
         (''look up.*(.+).*online'',
          seqs [lit ''look up'', star Dot, Grp (plus Dot), star Dot, lit ''online''])]),
       (''medium_confidence'',
        [(''google.*(.+)'',
          seqs [lit ''google'', star Dot, Grp (plus Dot)]),
         (''search.*(.+)'',
          seqs [lit ''search'', star Dot, Grp (plus Dot)]),
         (''look up.*(.+)'',
          seqs [lit ''look up'', star Dot, Grp (plus Dot)])]),
       (''low_confidence'',
        [(''google'',
          lit ''google''),
         (''search'',
          lit ''search'')])]),
    (''entertainment'', [
       (''high_confidence'',
        [(''entertain.*me'',
          seqs [lit ''entertain'', star Dot, lit ''me'']),
         (''something.*fun.*to.*do'',
          seqs [lit ''something'', star Dot, lit ''fun'', star Dot, lit ''to'', star Dot, lit ''do'']),
         (''i.*am.*bored'',
          seqs [Chr (CHR ''i''), star Dot, lit ''am'', star Dot, lit ''bored''])]),
       (''medium_confidence'',
        [(''something.*fun'',
          seqs [lit ''something'', star Dot, lit ''fun'']),
         (''bored'',
          lit ''bored''),
         (''entertainment'',
          lit ''entertainment'')]),
       (''low_confidence'',
        [(''fun'',
          lit ''fun''),
         (''entertain'',
          lit ''entertain'')])]),
    (''work_task'', [
       (''high_confidence'',
        [(''need.*help.*with.*work'',
          seqs [lit ''need'', star Dot, lit ''help'', star Dot, lit ''with'', star Dot, lit ''work'']),
         (''work.*related.*task'',
          seqs [lit ''work'', star Dot, lit ''related'', star Dot, lit ''task''])]),
       (''medium_confidence'',
        [(''work.*task'',
          seqs [lit ''work'', star Dot, lit ''task'']),
         (''office.*task'',
          seqs [lit ''office'', star Dot, lit ''task'']),
         (''document.*work'',
          seqs [lit ''document'', star Dot, lit ''work''])]),
       (''low_confidence'',
        [(''work'',
          lit ''work''),
         (''office'',
          lit ''office'')])]),
    (''file_management'', [
       (''high_confidence'',
        [(re_text [''find.*file.*named'', ''s+(.+)''],
          seqs [lit ''find'', star Dot, lit ''file'', star Dot, lit ''named'', plus ws, Grp (plus Dot)]),
         (''open.*folder.*(.+)'',
          seqs [lit ''open'', star Dot, lit ''folder'', star Dot, Grp (plus Dot)])]),
       (''medium_confidence'',
        [(''find.*file'',
          seqs [lit ''find'', star Dot, lit ''file'']),
         (''open.*folder'',
          seqs [lit ''open'', star Dot, lit ''folder'']),
         (''browse.*files'',
          seqs [lit ''browse'', star Dot, lit ''files''])]),
       (''low_confidence'',
        [(''file'',
          lit ''file''),
         (''folder'',
          lit ''folder''),
         (''explorer'',
          lit ''explorer'')])]),
    (''news_update'', [
       (''high_confidence'',
        [(re_text [''latest.*news.*about'', ''s+(.+)''],
          seqs [lit ''latest'', star Dot, lit ''news'', star Dot, lit ''about'', plus ws, Grp (plus Dot)]),
         (''news.*today.*(.+)'',
          seqs [lit ''news'', star Dot, lit ''today'', star Dot, Grp (plus Dot)])]),
       (''medium_confidence'',
        [(''latest.*news'',
          seqs [lit ''latest'', star Dot, lit ''news'']),
         (''news.*today'',
          seqs [lit ''news'', star Dot, lit ''today'']),
         (''current.*events'',
          seqs [lit ''current'', star Dot, lit ''events''])]),
       (''low_confidence'',
        [(''news'',
          lit ''news''),
         (''events'',
          lit ''events'')])]),
    (''social_media'', [
       (''high_confidence'',
        [(re_text [''open'', ''s+(facebook|twitter|instagram|linkedin|tiktok)''],
          seqs [lit ''open'', plus ws, Grp (alts [lit ''facebook'', lit ''twitter'', lit ''instagram'', lit ''linkedin'', lit ''tiktok''])]),
         (re_text [''check'', ''s+(facebook|twitter|instagram)''],
          seqs [lit ''check'', plus ws, Grp (alts [lit ''facebook'', lit ''twitter'', lit ''instagram''])])]),
       (''medium_confidence'',
        [(''social.*media'',
          seqs [lit ''social'', star Dot, lit ''media'']),
         (''check.*social'',
          seqs [lit ''check'', star Dot, lit ''social''])]),
       (''low_confidence'',
        [(''social'',
          lit ''social''),
         (''facebook'',
          lit ''facebook''),
         (''twitter'',
          lit ''twitter'')])]),
    (''learning'', [
       (''high_confidence'',
        [(re_text [''learn.*about'', ''s+(.+)''],
          seqs [lit ''learn'', star Dot, lit ''about'', plus ws, Grp (plus Dot)]),
         (re_text [''tutorial.*on'', ''s+(.+)''],
          seqs [lit ''tutorial'', star Dot, lit ''on'', plus ws, Grp (plus Dot)]),
         (re_text [''teach.*me'', ''s+(.+)''],
          seqs [lit ''teach'', star Dot, lit ''me'', plus ws, Grp (plus Dot)])]),
       (''medium_confidence'',
        [(''learn.*(.+)'',
          seqs [lit ''learn'', star Dot, Grp (plus Dot)]),
         (''tutorial.*(.+)'',
          seqs [lit ''tutorial'', star Dot, Grp (plus Dot)]),
         (''how.*to.*(.+)'',
          seqs [lit ''how'', star Dot, lit ''to'', star Dot, Grp (plus Dot)])]),
       (''low_confidence'',
        [(''learn'',
          lit ''learn''),
         (''tutorial'',
          lit ''tutorial''),
         (''teach'',
          lit ''teach'')])]),
    (''productivity'', [
       (''high_confidence'',
        [(''schedule.*appointment.*(.+)'',
          seqs [lit ''schedule'', star Dot, lit ''appointment'', star Dot, Grp (plus Dot)]),
         (re_text [''reminder.*for'', ''s+(.+)''],
          seqs [lit ''reminder'', star Dot, lit ''for'', plus ws, Grp (plus Dot)]),
         (''organize.*(.+)'',
          seqs [lit ''organize'', star Dot, Grp (plus Dot)])]),
       (''medium_confidence'',
        [(''schedule.*(.+)'',
          seqs [lit ''schedule'', star Dot, Grp (plus Dot)]),
         (''calendar.*(.+)'',
          seqs [lit ''calendar'', star Dot, Grp (plus Dot)]),
         (''reminder.*(.+)'',
          seqs [lit ''reminder'', star Dot, Grp (plus Dot)])]),
       (''low_confidence'',
        [(''schedule'',
          lit ''schedule''),
         (''calendar'',
          lit ''calendar''),
         (''reminder'',
          lit ''reminder'')])]),
    (''communication'', [
       (''high_confidence'',
        [(re_text [''send.*email.*to'', ''s+(.+)''],
          seqs [lit ''send'', star Dot, lit ''email'', star Dot, lit ''to'', plus ws, Grp (plus Dot)]),
         (re_text [''call'', ''s+(.+)''],
          seqs [lit ''call'', plus ws, Grp (plus Dot)]),
         (re_text [''message'', ''s+(.+)''],
          seqs [lit ''message'', plus ws, Grp (plus Dot)])]),
       (''medium_confidence'',
        [(''send.*email'',
          seqs [lit ''send'', star Dot, lit ''email'']),
         (''make.*call'',
          seqs [lit ''make'', star Dot, lit ''call'']),
         (''send.*message'',
          seqs [lit ''send'', star Dot, lit ''message''])]),
       (''low_confidence'',
        [(''email'',
          lit ''email''),
         (''call'',
          lit ''call''),
         (''message'',
          lit ''message'')])]),
    (''shopping'', [
       (''high_confidence'',
        [(re_text [''buy'', ''s+(.+)''],
          seqs [lit ''buy'', plus ws, Grp (plus Dot)]),
         (re_text [''shop.*for'', ''s+(.+)''],
          seqs [lit ''shop'', star Dot, lit ''for'', plus ws, Grp (plus Dot)]),
         (re_text [''purchase'', ''s+(.+)''],
          seqs [lit ''purchase'', plus ws, Grp (plus Dot)])]),
       (''medium_confidence'',
        [(''shopping.*(.+)'',
          seqs [lit ''shopping'', star Dot, Grp (plus Dot)]),
         (''buy.*(.+)'',
          seqs [lit ''buy'', star Dot, Grp (plus Dot)]),
         (''price.*(.+)'',
          seqs [lit ''price'', star Dot, Grp (plus Dot)])]),
       (''low_confidence'',
        [(''buy'',
          lit ''buy''),
         (''shop'',
          lit ''shop''),
         (''purchase'',
          lit ''purchase'')])])]"

definition entity_extractors_table :: "(string \<times> pattern list) list" where
  "entity_extractors_table = [
    (''time'',
     [(re_text [''at'', ''s+('', ''d{1,2}:'', ''d{2}'', ''s*(?:am|pm)?)''],
       seqs [lit ''at'', plus ws, Grp (seqs [Rep digit 1 (Some 2), Chr (CHR '':''), Rep digit 2 (Some 2), star ws, opt (alts [lit ''am'', lit ''pm''])])]),
      (re_text [''('', ''d{1,2}'', ''s*(?:am|pm))''],
       Grp (seqs [Rep digit 1 (Some 2), star ws, alts [lit ''am'', lit ''pm'']]))]),
    (''date'',
     [(re_text [''('', ''d{1,2}/'', ''d{1,2}/'', ''d{2,4})''],
       Grp (seqs [Rep digit 1 (Some 2), Chr (CHR ''/''), Rep digit 1 (Some 2), Chr (CHR ''/''), Rep digit 2 (Some 4)])),
      (re_text [''('', ''d{1,2}-'', ''d{1,2}-'', ''d{2,4})''],
       Grp (seqs [Rep digit 1 (Some 2), Chr (CHR ''-''), Rep digit 1 (Some 2), Chr (CHR ''-''), Rep digit 2 (Some 4)]))]),
    (''person'',
     [(re_text [''(?:call|to|message|email)'', ''s+([A-Z][a-z]+(?:'', ''s+[A-Z][a-z]+)*)''],
       seqs [alts [lit ''call'', lit ''to'', lit ''message'', lit ''email''], plus ws, Grp (seqs [AZ, plus az, star (seqs [plus ws, AZ, plus az])])])]),
    (''location'',
     [(re_text [''(?:in|at|near)'', ''s+([A-Z][a-z]+(?:'', ''s+[A-Z][a-z]+)*)''],
       seqs [alts [lit ''in'', lit ''at'', lit ''near''], plus ws, Grp (seqs [AZ, plus az, star (seqs [plus ws, AZ, plus az])])])])]"

definition knowledge_base_table :: "(string \<times> kb_entry) list" where
  "knowledge_base_table = [
    (''find_video'', \<lparr> actions = [''search_youtube'', ''check_local_videos''],
       priority = [''search_youtube''], context_sensitive = True, requires_topic = True \<rparr>),
    (''play_music'', \<lparr> actions = [''open_spotify'', ''search_youtube_music''],
       priority = [''open_spotify''], context_sensitive = True, requires_topic = False \<rparr>),
    (''entertainment'', \<lparr> actions = [''search_youtube'', ''open_netflix'', ''open_spotify''],
       priority = [''search_youtube''], context_sensitive = True, requires_topic = False \<rparr>),
    (''get_info'', \<lparr> actions = [''search_google'', ''search_wikipedia''],
       priority = [''search_google''], context_sensitive = True, requires_topic = True \<rparr>),
    (''search_web'', \<lparr> actions = [''search_google'', ''search_bing''],
       priority = [''search_google''], context_sensitive = False, requires_topic = True \<rparr>),
    (''news_update'', \<lparr> actions = [''search_google_news'', ''open_news_website''],
       priority = [''search_google_news''], context_sensitive = True, requires_topic = False \<rparr>),
    (''open_website'', \<lparr> actions = [''open_website''],
       priority = [''open_website''], context_sensitive = False, requires_topic = True \<rparr>),
    (''social_media'', \<lparr> actions = [''open_facebook'', ''open_twitter'', ''open_instagram''],
       priority = [''open_facebook''], context_sensitive = True, requires_topic = False \<rparr>),
    (''system_check'', \<lparr> actions = [''get_system_status'', ''check_performance''],
       priority = [''get_system_status''], context_sensitive = False, requires_topic = False \<rparr>),
    (''launch_app'', \<lparr> actions = [''open_application''],
       priority = [''open_application''], context_sensitive = False, requires_topic = True \<rparr>),
    (''work_task'', \<lparr> actions = [''open_notepad'', ''open_calculator''],
       priority = [''open_notepad''], context_sensitive = True, requires_topic = False \<rparr>),
    (''file_management'', \<lparr> actions = [''open_explorer'', ''search_files''],
       priority = [''open_explorer''], context_sensitive = True, requires_topic = False \<rparr>),
    (''productivity'', \<lparr> actions = [''open_calendar'', ''create_reminder''],
       priority = [''open_calendar''], context_sensitive = True, requires_topic = False \<rparr>),
    (''learning'', \<lparr> actions = [''search_educational_content'', ''find_tutorials''],
       priority = [''search_educational_content''], context_sensitive = True, requires_topic = True \<rparr>),
    (''communication'', \<lparr> actions = [''open_email'', ''open_messaging''],
       priority = [''open_email''], context_sensitive = True, requires_topic = False \<rparr>),
    (''shopping'', \<lparr> actions = [''search_products'', ''open_shopping_site''],
       priority = [''search_products''], context_sensitive = True, requires_topic = True \<rparr>)]"

text \<open>
  The brain as the constructor leaves it, for the default configuration and a given time
  of day (read from the clock once, at construction).
\<close>

definition new_brain :: "string \<Rightarrow> brain" where
  "new_brain time_context =
     \<lparr> confidence_threshold = 7 / 10, max_alternatives = 3, learning_enabled = True,
       context_window = 5, knowledge_base = knowledge_base_table,
       intent_patterns = intent_patterns_table, entity_extractors = entity_extractors_table,
       conversation_history = [],
       session_context = \<lparr> last_intent = None, time_of_day = time_context \<rparr>,
       user_preferences = [], total_decisions = 0, successful_decisions = 0,
       clarifications_needed = 0 \<rparr>"

section \<open>The decision brain: intent resolution\<close>

text \<open>
  \<open>_extract_entities_from_match\<close>: the first group of the winning match, stripped, is the
  primary entity (\<open>None.strip()\<close> raises \<open>AttributeError\<close>); then every entity extractor
  is searched in the command as typed, ignoring case, and the first pattern of each
  extractor that matches sets the entity.
\<close>

fun first_entity_match :: "pattern list \<Rightarrow> string \<Rightarrow> match_obj option" where
  "first_entity_match [] command = None"
| "first_entity_match (p # ps) command =
     (case re_search True (snd p) command of
        Some em \<Rightarrow> Some em
      | None \<Rightarrow> first_entity_match ps command)"

text \<open>\<open>match.group(1)\<close>; a pattern without a group makes it raise \<open>IndexError\<close>.\<close>

definition group1 :: "match_obj \<Rightarrow> py_error + string option" where
  "group1 m = (case groups m of [] \<Rightarrow> Inl IndexError | g # _ \<Rightarrow> Inr g)"

fun run_extractors :: "(string \<times> pattern list) list \<Rightarrow> string \<Rightarrow> entities \<Rightarrow> py_error + entities" where
  "run_extractors [] command ents = Inr ents"
| "run_extractors ((entity_type, patterns) # rest) command ents =
     (case first_entity_match patterns command of
        None \<Rightarrow> run_extractors rest command ents
      | Some em \<Rightarrow>
          (case group1 em of
             Inl e \<Rightarrow> Inl e
           | Inr g \<Rightarrow> run_extractors rest command (dict_set entity_type g ents)))"

definition extract_entities_from_match ::
  "(string \<times> pattern list) list \<Rightarrow> match_obj \<Rightarrow> string \<Rightarrow> py_error + entities" where
  "extract_entities_from_match extractors m command =
     (case groups m of
        [] \<Rightarrow> run_extractors extractors command []
      | None # _ \<Rightarrow> Inl AttributeError
      | Some g # _ \<Rightarrow> run_extractors extractors command [(''primary_entity'', Some (str_strip g))])"

text \<open>
  The score of one matching pattern: the base confidence of its tier, plus 0.1 when the
  match is the whole command, plus 0.1 times the share of the command that the match
  covers. The division raises \<open>ZeroDivisionError\<close> on an empty command.
\<close>

definition pattern_confidence :: "rat \<Rightarrow> match_obj \<Rightarrow> string \<Rightarrow> py_error + rat" where
  "pattern_confidence base_confidence m command_lower =
     (if length command_lower = 0 then Inl ZeroDivisionError
      else Inr (base_confidence
                + (if group0 m = command_lower then 1 / 10 else 0)
                + (of_nat (length (group0 m)) / of_nat (length command_lower)) * (1 / 10)))"

text \<open>
  The running best of one intent: confidence, pattern text and entities, replaced only by
  a strictly higher score. The three loops of \<open>_determine_intent_with_confidence\<close>: over
  the patterns of a tier, over the tiers, over the intents of the bank.
\<close>

type_synonym best = "rat \<times> string \<times> entities"

fun scan_patterns ::
  "(string \<times> pattern list) list \<Rightarrow> string \<Rightarrow> string \<Rightarrow> rat \<Rightarrow> pattern list \<Rightarrow> best \<Rightarrow> py_error + best" where
  "scan_patterns ex command command_lower base_confidence [] b = Inr b"
| "scan_patterns ex command command_lower base_confidence (p # ps) b =
     (case re_search False (snd p) command_lower of
        None \<Rightarrow> scan_patterns ex command command_lower base_confidence ps b
      | Some m \<Rightarrow>
          (case pattern_confidence base_confidence m command_lower of
             Inl e \<Rightarrow> Inl e
           | Inr pc \<Rightarrow>
               (case extract_entities_from_match ex m command of
                  Inl e \<Rightarrow> Inl e
                | Inr ents \<Rightarrow>
                    scan_patterns ex command command_lower base_confidence ps
                      (if pc > fst b then (pc, fst p, ents) else b))))"

definition confidence_levels :: "(string \<times> rat) list" where
  "confidence_levels =
     [(''high_confidence'', 9 / 10), (''medium_confidence'', 6 / 10), (''low_confidence'', 3 / 10)]"

fun scan_levels ::
  "(string \<times> pattern list) list \<Rightarrow> string \<Rightarrow> string \<Rightarrow> (string \<times> pattern list) list \<Rightarrow>
   (string \<times> rat) list \<Rightarrow> best \<Rightarrow> py_error + best" where
  "scan_levels ex command command_lower pattern_groups [] b = Inr b"
| "scan_levels ex command command_lower pattern_groups ((confidence_level, base_confidence) # ls) b =
     (case map_of pattern_groups confidence_level of
        None \<Rightarrow> scan_levels ex command command_lower pattern_groups ls b
      | Some ps \<Rightarrow>
          (case scan_patterns ex command command_lower base_confidence ps b of
             Inl e \<Rightarrow> Inl e
           | Inr b' \<Rightarrow> scan_levels ex command command_lower pattern_groups ls b'))"

fun scan_intents ::
  "(string \<times> pattern list) list \<Rightarrow> string \<Rightarrow> string \<Rightarrow>
   (string \<times> (string \<times> pattern list) list) list \<Rightarrow> IntentMatch list \<Rightarrow> py_error + IntentMatch list" where
  "scan_intents ex command command_lower [] intent_matches = Inr intent_matches"
| "scan_intents ex command command_lower ((i, pattern_groups) # rest) intent_matches =
     (case scan_levels ex command command_lower pattern_groups confidence_levels (0, [], []) of
        Inl e \<Rightarrow> Inl e
      | Inr (best_confidence, best_pattern, best_entities) \<Rightarrow>
          scan_intents ex command command_lower rest
            (if best_confidence > 0
             then intent_matches @
                  [\<lparr> intent = i, confidence = min best_confidence 1,
                     matched_pattern = best_pattern, extracted_entities = best_entities \<rparr>]
             else intent_matches))"

text \<open>
  \<open>list.sort(key=lambda x: x.confidence, reverse=True)\<close>: a stable sort into
  non-increasing confidence.
\<close>

definition sort_by_confidence :: "IntentMatch list \<Rightarrow> IntentMatch list" where
  "sort_by_confidence ms = sort_key (\<lambda>m. - confidence m) ms"

text \<open>
  \<open>_apply_context_boosting\<close> on the values of the matches: a match of the last intent
  gains 0.1, a match of an intent that the time of day favours gains 0.05, each capped at
  1.0, and the list is sorted again. A last intent that is \<open>None\<close> or empty is skipped.
\<close>

definition time_boosts :: "(string \<times> string list) list" where
  "time_boosts =
     [(''morning'', [''news_update'', ''productivity'']),
      (''evening'', [''entertainment'', ''find_video'']),
      (''night'', [''entertainment'', ''play_music''])]"

definition boost_last_intent :: "string option \<Rightarrow> IntentMatch \<Rightarrow> IntentMatch" where
  "boost_last_intent li m =
     (case li of
        None \<Rightarrow> m
      | Some l \<Rightarrow> if l \<noteq> [] \<and> intent m = l
                  then m\<lparr>confidence := min 1 (confidence m + 1 / 10)\<rparr> else m)"

definition boost_time :: "string \<Rightarrow> IntentMatch \<Rightarrow> IntentMatch" where
  "boost_time time_context m =
     (if intent m \<in> set (case map_of time_boosts time_context of None \<Rightarrow> [] | Some is \<Rightarrow> is)
      then m\<lparr>confidence := min 1 (confidence m + 1 / 20)\<rparr> else m)"

definition apply_context_boosting :: "session_ctx \<Rightarrow> IntentMatch list \<Rightarrow> IntentMatch list" where
  "apply_context_boosting ctx intent_matches =
     sort_by_confidence
       (map (boost_time (time_of_day ctx)) (map (boost_last_intent (last_intent ctx)) intent_matches))"

definition determine_intent_with_confidence :: "brain \<Rightarrow> string \<Rightarrow> py_error + IntentMatch list" where
  "determine_intent_with_confidence b command =
     (let command_lower = str_strip (str_lower command) in
      case scan_intents (entity_extractors b) command command_lower (intent_patterns b) [] of
        Inl e \<Rightarrow> Inl e
      | Inr intent_matches \<Rightarrow>
          Inr (apply_context_boosting (session_context b) (sort_by_confidence intent_matches)))"

section \<open>The decision brain: choosing an action\<close>

definition intent_config_get :: "brain \<Rightarrow> string \<Rightarrow> kb_entry option" where
  "intent_config_get b i = map_of (knowledge_base b) i"

text \<open>\<open>intent_config.get("actions", [])\<close> on \<open>knowledge_base.get(intent, {})\<close>.\<close>

definition possible_actions_of :: "brain \<Rightarrow> string \<Rightarrow> string list" where
  "possible_actions_of b i = (case intent_config_get b i of None \<Rightarrow> [] | Some cfg \<Rightarrow> actions cfg)"

definition extract_enhanced_parameters :: "string \<Rightarrow> IntentMatch \<Rightarrow> entities" where
  "extract_enhanced_parameters command intent_match =
     (let parameters = extracted_entities intent_match; i = intent intent_match in
      case map_of parameters ''primary_entity'' of
        None \<Rightarrow> parameters
      | Some pe \<Rightarrow>
          if i \<in> set [''find_video'', ''get_info'', ''search_web'', ''learning'']
          then dict_set ''topic'' pe parameters
          else if i \<in> set [''play_music''] then dict_set ''music_query'' pe parameters
          else if i \<in> set [''open_website''] then dict_set ''url'' pe parameters
          else if i \<in> set [''launch_app''] then dict_set ''application'' pe parameters
          else parameters)"

text \<open>\<open>parameters.get(key, default)\<close> as it prints inside an f-string.\<close>

definition param_str :: "entities \<Rightarrow> string \<Rightarrow> string \<Rightarrow> string" where
  "param_str parameters k dflt =
     (case map_of parameters k of None \<Rightarrow> dflt | Some None \<Rightarrow> ''None'' | Some (Some v) \<Rightarrow> v)"

definition create_enhanced_clarification :: "string \<Rightarrow> string list \<Rightarrow> entities \<Rightarrow> string" where
  "create_enhanced_clarification i possible_actions parameters =
     (if i = ''find_video''
      then ''CLARIFY:I can search YouTube for '' @ [CHR 0x27] @ param_str parameters ''topic'' ''videos''
           @ [CHR 0x27] @ '' or check your local files. Which one, Boss?''
      else if i = ''play_music''
      then ''CLARIFY:I can play '' @ [CHR 0x27] @ param_str parameters ''music_query'' ''music''
           @ [CHR 0x27] @ '' on Spotify or YouTube Music. What'' @ [CHR 0x27] @ ''s your preference?''
      else ''CLARIFY:I have a few options for that: ''
           @ str_join '', '' (map (replace_char CHR ''_'' CHR '' '') (take 3 possible_actions))
           @ ''. Which should I use, Boss?'')"

text \<open>The \<open>automation_command\<close> entry of what \<open>_map_action_to_automation_enhanced\<close> returns.\<close>

definition map_action_to_automation_enhanced :: "string \<Rightarrow> entities \<Rightarrow> string \<Rightarrow> string" where
  "map_action_to_automation_enhanced action parameters i =
     (if action = ''search_youtube'' then ''search youtube for '' @ param_str parameters ''topic'' ''videos''
      else if action = ''search_youtube_music''
      then ''search youtube for '' @ param_str parameters ''music_query'' ''music'' @ '' music''
      else if action = ''open_spotify'' then ''open spotify.com''
      else if action = ''search_google'' then ''search for '' @ param_str parameters ''topic'' ''information''
      else if action = ''open_website'' then ''open '' @ param_str parameters ''url'' ''google.com''
      else if action = ''open_application'' then ''open '' @ param_str parameters ''application'' ''notepad''
      else action)"

text \<open>
  \<open>Counter.most_common(1)\<close>: the entry with the highest count, the earliest inserted among
  equals.
\<close>

fun most_common1 :: "(string \<times> int) list \<Rightarrow> (string \<times> int) option" where
  "most_common1 [] = None"
| "most_common1 (x # xs) =
     (case most_common1 xs of
        None \<Rightarrow> Some x
      | Some y \<Rightarrow> if snd y > snd x then Some y else Some x)"

definition prefs_of :: "brain \<Rightarrow> string \<Rightarrow> (string \<times> int) list" where
  "prefs_of b i = (case map_of (user_preferences b) i of None \<Rightarrow> [] | Some c \<Rightarrow> c)"

text \<open>
  \<open>_select_best_action\<close>; its parameters \<open>parameters\<close> and \<open>context\<close> are not read.
  \<open>priority_actions[0]\<close> raises \<open>IndexError\<close> on an empty priority list.
\<close>

definition select_best_action :: "brain \<Rightarrow> string \<Rightarrow> py_error + string" where
  "select_best_action b i =
     (case intent_config_get b i of
        None \<Rightarrow> Inl KeyError
      | Some intent_config \<Rightarrow>
          (case priority intent_config of
             [] \<Rightarrow> Inl IndexError
           | best_action # _ \<Rightarrow>
               (case most_common1 (prefs_of b i) of
                  None \<Rightarrow> Inr best_action
                | Some (most_common_action, _) \<Rightarrow>
                    if most_common_action \<in> set (actions intent_config)
                    then Inr most_common_action else Inr best_action)))"

definition update_conversation_history :: "brain \<Rightarrow> string \<Rightarrow> string \<Rightarrow> DecisionResult \<Rightarrow> brain" where
  "update_conversation_history b command i result =
     (let h = conversation_history b @ [\<lparr> h_command = command, h_intent = i, h_action = dr_action result \<rparr>];
          h' = (if int (length h) > context_window b then tl h else h)
      in b\<lparr> conversation_history := h', session_context := (session_context b)\<lparr> last_intent := Some i \<rparr> \<rparr>)"

definition learn_from_interaction :: "brain \<Rightarrow> string \<Rightarrow> string \<Rightarrow> bool \<Rightarrow> brain" where
  "learn_from_interaction b command i success =
     (if \<not> learning_enabled b then b
      else if success \<and> i \<noteq> []
      then (let c = prefs_of b i;
                n = (case map_of c command of None \<Rightarrow> 0 | Some k \<Rightarrow> k)
            in b\<lparr> user_preferences := dict_set i (dict_set command (n + 1) c) (user_preferences b) \<rparr>)
      else b)"

definition default_result :: DecisionResult where
  "default_result =
     \<lparr> dr_success = False, dr_action = None, dr_automation_command = None, dr_parameters = None,
       dr_confidence = 0, dr_intent = None, dr_clarification_needed = False,
       dr_clarification_message = None, dr_alternatives = None \<rparr>"

definition error_name :: "py_error \<Rightarrow> string" where
  "error_name e = (case e of ZeroDivisionError \<Rightarrow> ''ZeroDivisionError''
     | AttributeError \<Rightarrow> ''AttributeError'' | IndexError \<Rightarrow> ''IndexError'' | KeyError \<Rightarrow> ''KeyError'')"

text \<open>The \<open>except\<close> branch of \<open>make_decision\<close>; learning from a failure changes nothing.\<close>

definition decision_error :: "brain \<Rightarrow> string \<Rightarrow> py_error \<Rightarrow> DecisionResult option \<times> brain" where
  "decision_error b command e =
     (Some (default_result\<lparr> dr_clarification_message :=
              Some (''Boss, I had an error in my thought process: '' @ error_name e) \<rparr>),
      learn_from_interaction b command [] False)"

text \<open>The end of \<open>make_decision\<close>, once the action is chosen.\<close>

definition decide_action ::
  "brain \<Rightarrow> string \<Rightarrow> string \<Rightarrow> rat \<Rightarrow> entities \<Rightarrow> string \<Rightarrow> DecisionResult option \<times> brain" where
  "decide_action b command i conf parameters action_to_take =
     (let result = default_result\<lparr> dr_success := True, dr_action := Some action_to_take,
                     dr_automation_command := Some (map_action_to_automation_enhanced action_to_take parameters i),
                     dr_parameters := Some parameters, dr_confidence := conf, dr_intent := Some i \<rparr>;
          b1 = update_conversation_history b command i result;
          b2 = learn_from_interaction b1 command i True
      in (Some result, b2\<lparr> successful_decisions := successful_decisions b2 + 1 \<rparr>))"

text \<open>
  \<open>make_decision\<close> returns a \<open>DecisionResult\<close> or \<open>None\<close>, and updates the brain. Every
  exception raised inside is caught and turned into a result.
\<close>

definition make_decision :: "brain \<Rightarrow> string \<Rightarrow> DecisionResult option \<times> brain" where
  "make_decision b0 command =
     (if command = [] \<or> str_strip command = []
      then (Some (default_result\<lparr> dr_clarification_message := Some ''Boss, I need a command to process.'' \<rparr>), b0)
      else
        let b = b0\<lparr> total_decisions := total_decisions b0 + 1 \<rparr> in
        case determine_intent_with_confidence b command of
          Inl e \<Rightarrow> decision_error b command e
        | Inr [] \<Rightarrow> (None, b)
        | Inr (best_match # rest) \<Rightarrow>
            let i = intent best_match; conf = confidence best_match in
            if conf < confidence_threshold b
            then
              (let alternatives = map intent (slice_to (max_alternatives b) (best_match # rest)) in
               (Some (default_result\<lparr> dr_intent := Some i, dr_confidence := conf,
                        dr_clarification_needed := True,
                        dr_clarification_message :=
                          Some (''CLARIFY:I'' @ [CHR 0x27] @ ''m not entirely sure, Boss. Did you mean: ''
                                @ str_join '', '' alternatives @ ''?''),
                        dr_alternatives := Some alternatives \<rparr>), b))
            else
              let parameters = extract_enhanced_parameters command best_match in
              (case possible_actions_of b i of
                 [] \<Rightarrow> (None, b)
               | [a] \<Rightarrow> decide_action b command i conf parameters a
               | a # a' # as \<Rightarrow>
                   if (case intent_config_get b i of None \<Rightarrow> False | Some cfg \<Rightarrow> context_sensitive cfg)
                   then (case select_best_action b i of
                           Inl e \<Rightarrow> decision_error b command e
                         | Inr action_to_take \<Rightarrow> decide_action b command i conf parameters action_to_take)
                   else
                     (Some (default_result\<lparr> dr_intent := Some i, dr_confidence := conf,
                              dr_clarification_needed := True,
                              dr_clarification_message :=
                                Some (create_enhanced_clarification i (a # a' # as) parameters),
                              dr_alternatives := Some (a # a' # as) \<rparr>),
                      b\<lparr> clarifications_needed := clarifications_needed b + 1 \<rparr>)))"

text \<open>
  \<open>handle_clarification_response\<close> resolves the original command again and takes the first
  possible action whose name, underscores as spaces, occurs in the lower-cased answer.
  It has no \<open>except\<close> branch: an exception reaches the caller.
\<close>

fun first_named_action :: "string list \<Rightarrow> string \<Rightarrow> string option" where
  "first_named_action [] response_lower = None"
| "first_named_action (action # rest) response_lower =
     (if str_contains response_lower (replace_char CHR ''_'' CHR '' '' action) then Some action
      else first_named_action rest response_lower)"

definition handle_clarification_response ::
  "brain \<Rightarrow> string \<Rightarrow> string \<Rightarrow> py_error + (DecisionResult option \<times> brain)" where
  "handle_clarification_response b original_command clarification_response =
     (case determine_intent_with_confidence b original_command of
        Inl e \<Rightarrow> Inl e
      | Inr [] \<Rightarrow> Inr (None, b)
      | Inr (best_match # rest) \<Rightarrow>
          let i = intent best_match in
          (case first_named_action (possible_actions_of b i) (str_lower clarification_response) of
             Some action \<Rightarrow>
               let parameters = extract_enhanced_parameters original_command best_match in
               Inr (Some (default_result\<lparr> dr_success := True, dr_action := Some action,
                            dr_automation_command := Some (map_action_to_automation_enhanced action parameters i),
                            dr_parameters := Some parameters, dr_confidence := confidence best_match,
                            dr_intent := Some i \<rparr>),
                    learn_from_interaction b original_command i True)
           | None \<Rightarrow>
               Inr (Some (default_result\<lparr> dr_clarification_needed := True,
                            dr_clarification_message :=
                              Some (''CLARIFY:I didn'' @ [CHR 0x27] @ ''t understand that choice, Boss.'') \<rparr>),
                    b)))"

section \<open>Context boosting on the objects themselves\<close>

text \<open>
  \<open>_apply_context_boosting\<close> receives a list object whose elements are \<open>IntentMatch\<close>
  objects, assigns to the \<open>confidence\<close> attribute of those objects, sorts the list object
  with \<open>list.sort\<close> and returns it. To say what a caller that still holds the list or
  the objects can observe, the store is explicit: \<open>objs\<close> maps an address to the
  \<open>IntentMatch\<close> object there, \<open>lists\<close> maps an address to the content of the list object
  there (the addresses of its elements).
\<close>

type_synonym addr = nat

record store =
  objs :: "addr \<Rightarrow> IntentMatch"
  lists :: "addr \<Rightarrow> addr list"

definition update_obj :: "(IntentMatch \<Rightarrow> IntentMatch) \<Rightarrow> addr \<Rightarrow> store \<Rightarrow> store" where
  "update_obj f a h = h\<lparr> objs := (objs h)(a := f (objs h a)) \<rparr>"

definition apply_context_boosting_inplace :: "session_ctx \<Rightarrow> addr \<Rightarrow> store \<Rightarrow> addr \<times> store" where
  "apply_context_boosting_inplace ctx l h =
     (let h1 = fold (update_obj (boost_last_intent (last_intent ctx))) (lists h l) h;
          h2 = fold (update_obj (boost_time (time_of_day ctx))) (lists h1 l) h1;
          h3 = h2\<lparr> lists := (lists h2)(l := sort_key (\<lambda>a. - confidence (objs h2 a)) (lists h2 l)) \<rparr>
      in (l, h3))"

section \<open>The security brain\<close>

text \<open>
  \<open>urlparse(url).netloc\<close> is library code. For a URL that starts with \<open>http://\<close> or
  \<open>https://\<close> and holds no tab, carriage return or newline, the network location is the
  text after the two slashes up to the first \<open>/\<close>, \<open>?\<close> or \<open>#\<close>; a network location with an
  opening bracket and no closing one, or the reverse, raises \<open>ValueError\<close> (the result
  \<open>None\<close> here).
\<close>

definition netloc_of :: "string \<Rightarrow> string option" where
  "netloc_of url =
     (let after = (if startswith url ''http://'' then drop 7 url else drop 8 url);
          netloc = takeWhile (\<lambda>c. c \<notin> set ''/?#'') after
      in if (CHR ''['' \<in> set netloc) \<noteq> (CHR '']'' \<in> set netloc) then None else Some netloc)"

text \<open>
  \<open>extract_domain\<close>; when parsing raises, the \<open>except\<close> branch returns the URL (with the
  scheme it was given above) in lower case.
\<close>

definition extract_domain :: "string \<Rightarrow> string" where
  "extract_domain url0 =
     (let url = (if startswith url0 ''http://'' \<or> startswith url0 ''https://'' then url0
                 else ''https://'' @ url0)
      in case netloc_of url of
           None \<Rightarrow> str_lower url
         | Some netloc \<Rightarrow>
             let domain = str_lower netloc
             in if startswith domain ''www.'' then drop 4 domain else domain)"

text \<open>
  The domain pattern of \<open>is_valid_domain\<close>,
  \<open>^[a-zA-Z0-9]([a-zA-Z0-9\-]{0,61}[a-zA-Z0-9])?(\.[a-zA-Z0-9]([a-zA-Z0-9\-]{0,61}[a-zA-Z0-9])?)*$\<close>;
  only whether it matches is used, so its groups are not captured.
\<close>

definition domain_pattern :: rx where
  "domain_pattern =
     seqs [Bol, alnum, opt (seqs [Rep alnum_dash 0 (Some 61), alnum]),
           star (seqs [Chr (CHR ''.''), alnum, opt (seqs [Rep alnum_dash 0 (Some 61), alnum])]), Eol]"

definition is_valid_domain :: "string \<Rightarrow> bool" where
  "is_valid_domain domain = (if domain = [] then False else re_match False domain_pattern domain \<noteq> None)"

text \<open>
  The three lists are Python sets. The copy of the lists that \<open>_update_config_lists\<close>
  writes back into the configuration is not modelled.
\<close>

record security_brain =
  trusted_sites :: "string set"
  blocked_sites :: "string set"
  one_time_sessions :: "string set"
  session_usage :: "(string \<times> nat) list"

definition new_security_brain :: "string list \<Rightarrow> string list \<Rightarrow> string list \<Rightarrow> security_brain" where
  "new_security_brain trusted blocked one_time =
     \<lparr> trusted_sites = set trusted, blocked_sites = set blocked, one_time_sessions = set one_time,
       session_usage = [] \<rparr>"

datatype access = DENIED | ALLOWED | ASK_USER string

definition check_website_access :: "string \<Rightarrow> security_brain \<Rightarrow> access \<times> security_brain" where
  "check_website_access url sb =
     (if url = [] \<or> str_strip url = [] then (DENIED, sb)
      else
        let domain = extract_domain (str_strip url) in
        if \<not> is_valid_domain domain then (DENIED, sb)
        else if domain \<in> blocked_sites sb then (DENIED, sb)
        else if domain \<in> trusted_sites sb then (ALLOWED, sb)
        else if domain \<in> one_time_sessions sb
        then (ALLOWED,
              sb\<lparr> session_usage :=
                    dict_set domain ((case map_of (session_usage sb) domain of None \<Rightarrow> 0 | Some n \<Rightarrow> n) + 1)
                      (session_usage sb) \<rparr>)
        else (ASK_USER (''This is a new site ('' @ [CHR 0x27] @ domain @ [CHR 0x27]
                        @ ''). How should I proceed? (Options: Yes, No, This time only)''), sb))"

definition add_to_trusted :: "string \<Rightarrow> security_brain \<Rightarrow> bool \<times> security_brain" where
  "add_to_trusted domain sb =
     (let clean_domain = extract_domain domain in
      if \<not> is_valid_domain clean_domain then (False, sb)
      else (True, sb\<lparr> blocked_sites := blocked_sites sb - {clean_domain},
                      one_time_sessions := one_time_sessions sb - {clean_domain},
                      trusted_sites := insert clean_domain (trusted_sites sb) \<rparr>))"

definition add_to_blocked :: "string \<Rightarrow> security_brain \<Rightarrow> bool \<times> security_brain" where
  "add_to_blocked domain sb =
     (let clean_domain = extract_domain domain in
      if \<not> is_valid_domain clean_domain then (False, sb)
      else (True, sb\<lparr> trusted_sites := trusted_sites sb - {clean_domain},
                      one_time_sessions := one_time_sessions sb - {clean_domain},
                      blocked_sites := insert clean_domain (blocked_sites sb) \<rparr>))"

definition add_to_one_time :: "string \<Rightarrow> security_brain \<Rightarrow> bool \<times> security_brain" where
  "add_to_one_time domain sb =
     (let clean_domain = extract_domain domain in
      if \<not> is_valid_domain clean_domain then (False, sb)
      else (True, sb\<lparr> one_time_sessions := insert clean_domain (one_time_sessions sb) \<rparr>))"

definition remove_from_trusted :: "string \<Rightarrow> security_brain \<Rightarrow> bool \<times> security_brain" where
  "remove_from_trusted domain sb =
     (let clean_domain = extract_domain domain in
      if clean_domain \<in> trusted_sites sb
      then (True, sb\<lparr> trusted_sites := trusted_sites sb - {clean_domain} \<rparr>)
      else (False, sb))"

definition remove_from_blocked :: "string \<Rightarrow> security_brain \<Rightarrow> bool \<times> security_brain" where
  "remove_from_blocked domain sb =
     (let clean_domain = extract_domain domain in
      if clean_domain \<in> blocked_sites sb
      then (True, sb\<lparr> blocked_sites := blocked_sites sb - {clean_domain} \<rparr>)
      else (False, sb))"

definition clear_one_time_sessions :: "security_brain \<Rightarrow> security_brain" where
  "clear_one_time_sessions sb = sb\<lparr> one_time_sessions := {}, session_usage := [] \<rparr>"

text \<open>The operations that change the lists, and a run of them in sequence.\<close>

datatype sec_op =
    AddToTrusted string
  | AddToBlocked string
  | AddToOneTime string
  | RemoveFromTrusted string
  | RemoveFromBlocked string
  | ClearOneTimeSessions
  | CheckWebsiteAccess string

fun apply_sec_op :: "sec_op \<Rightarrow> security_brain \<Rightarrow> security_brain" where
  "apply_sec_op (AddToTrusted d) sb = snd (add_to_trusted d sb)"
| "apply_sec_op (AddToBlocked d) sb = snd (add_to_blocked d sb)"
| "apply_sec_op (AddToOneTime d) sb = snd (add_to_one_time d sb)"
| "apply_sec_op (RemoveFromTrusted d) sb = snd (remove_from_trusted d sb)"
| "apply_sec_op (RemoveFromBlocked d) sb = snd (remove_from_blocked d sb)"
| "apply_sec_op ClearOneTimeSessions sb = clear_one_time_sessions sb"
| "apply_sec_op (CheckWebsiteAccess u) sb = snd (check_website_access u sb)"

definition run_sec_ops :: "sec_op list \<Rightarrow> security_brain \<Rightarrow> security_brain" where
  "run_sec_ops ops sb = fold apply_sec_op ops sb"

section \<open>The central nervous system\<close>

text \<open>
  The automation brain (\<open>brains.automation_brain\<close>) and the response brain are
  collaborators of \<open>VitaCNS\<close>. What they answer is given from outside, per call of
  \<open>handle_command\<close>: a loaded brain is a function from the text it receives to what it
  returns or to the fact that it raises. They are taken not to assign to the attributes of
  the CNS. The memory brain only writes its log and never raises, so it is left out, and
  so are the clock readings and the \<open>metadata\<close> of a result.
\<close>

datatype 'a outcome = Raises | Returns 'a

record env =
  automation_brain :: "(string \<Rightarrow> string option outcome) option"
  open_website :: "string \<Rightarrow> unit outcome"
  response_brain :: "(string \<Rightarrow> string option outcome) option"

record security_question =
  sq_question :: string
  sq_url :: string
  sq_original_command :: string

record clarification_ctx =
  cc_original_command :: string
  cc_decision_result :: DecisionResult

record CommandResult =
  cr_success :: bool
  cr_response :: "string option"
  cr_source_brain :: string
  cr_requires_clarification :: bool
  cr_clarification_message :: "string option"

text \<open>
  The calls that the CNS makes to its brains are logged in \<open>calls\<close>, so that one can say
  which calls a command caused. A call of \<open>make_decision\<close> is logged with the command and
  with whether an interrupt was pending when it was made.
\<close>

datatype call =
    MakeDecision string bool
  | HandleClarificationResponse string string
  | ExecuteCommand string
  | ProcessCommand string
  | OpenWebsite string
  | AddTrusted string
  | AddBlocked string
  | AddOneTime string

record cns =
  pending_security_question :: "security_question option"
  pending_decision_clarification :: "clarification_ctx option"
  last_command :: "string option"
  decision_brain :: "brain option"
  security_brain :: "security_brain option"
  commands_processed :: nat
  successful_commands :: nat
  failed_commands :: nat
  clarifications_requested :: nat
  security_checks :: nat
  calls :: "call list"

definition new_cns :: "brain option \<Rightarrow> security_brain option \<Rightarrow> cns" where
  "new_cns db sb =
     \<lparr> pending_security_question = None, pending_decision_clarification = None,
       last_command = None, decision_brain = db, security_brain = sb,
       commands_processed = 0, successful_commands = 0, failed_commands = 0,
       clarifications_requested = 0, security_checks = 0, calls = [] \<rparr>"

definition interrupt_pending :: "cns \<Rightarrow> bool" where
  "interrupt_pending s =
     (pending_security_question s \<noteq> None \<or> pending_decision_clarification s \<noteq> None)"

text \<open>At most one of the two interrupts is pending.\<close>

definition at_most_one_pending :: "cns \<Rightarrow> bool" where
  "at_most_one_pending s =
     (\<not> (pending_security_question s \<noteq> None \<and> pending_decision_clarification s \<noteq> None))"

text \<open>The calls logged between a state and a later one.\<close>

definition new_calls :: "cns \<Rightarrow> cns \<Rightarrow> call list" where
  "new_calls s s' = drop (length (calls s)) (calls s')"

text \<open>
  \<open>extends_calls P s s'\<close>: the later state has the calls of the earlier one and then
  only calls that satisfy \<open>P\<close>. A call is no resolution when it is neither
  \<open>make_decision\<close> nor \<open>handle_clarification_response\<close>; it is unflagged when it is
  not a \<open>make_decision\<close> made while an interrupt was pending.
\<close>

definition extends_calls :: "(call \<Rightarrow> bool) \<Rightarrow> cns \<Rightarrow> cns \<Rightarrow> bool" where
  "extends_calls P s s' = (\<exists>new. calls s' = calls s @ new \<and> (\<forall>x\<in>set new. P x))"

definition not_resolution :: "call \<Rightarrow> bool" where
  "not_resolution c = (case c of MakeDecision cmd p \<Rightarrow> False | HandleClarificationResponse a b \<Rightarrow> False | _ \<Rightarrow> True)"

definition unflagged :: "call \<Rightarrow> bool" where
  "unflagged c = (case c of MakeDecision cmd p \<Rightarrow> \<not> p | _ \<Rightarrow> True)"

definition log_call :: "call \<Rightarrow> cns \<Rightarrow> cns" where
  "log_call c s = s\<lparr> calls := calls s @ [c] \<rparr>"

subsection \<open>Text helpers of the CNS\<close>

text \<open>\<open>s.split()\<close>: the maximal runs of characters that are not white space.\<close>

fun split_acc :: "string \<Rightarrow> string \<Rightarrow> string list" where
  "split_acc [] cur = (if cur = [] then [] else [rev cur])"
| "split_acc (c # cs) cur =
     (if py_isspace c then (if cur = [] then split_acc cs [] else rev cur # split_acc cs [])
      else split_acc cs (c # cur))"

definition str_split :: "string \<Rightarrow> string list" where
  "str_split s = split_acc s []"

text \<open>\<open>s.replace(sub, "")\<close> for a non-empty \<open>sub\<close>; \<open>skip\<close> counts the characters still to drop.\<close>

fun remove_sub :: "string \<Rightarrow> nat \<Rightarrow> string \<Rightarrow> string" where
  "remove_sub sub skip [] = []"
| "remove_sub sub (Suc k) (c # cs) = remove_sub sub k cs"
| "remove_sub sub 0 (c # cs) =
     (if startswith (c # cs) sub then remove_sub sub (length sub - 1) cs
      else c # remove_sub sub 0 cs)"

definition url_patterns :: "pattern list" where
  "url_patterns =
     [(re_text [''https?://[^'', ''s]+''],
       seqs [lit ''http'', opt (Chr (CHR ''s'')), lit ''://'', plus nonws]),
      (re_text [''www'', ''.[^'', ''s]+''],
       seqs [lit ''www.'', plus nonws]),
      (re_text [''[a-zA-Z0-9-]+'', ''.[a-zA-Z]{2,}[^'', ''s]*''],
       seqs [plus alnum_dash, Chr (CHR ''.''), Rep azAZ 2 None, star nonws])]"

fun first_search :: "pattern list \<Rightarrow> string \<Rightarrow> match_obj option" where
  "first_search [] command = None"
| "first_search (p # ps) command =
     (case re_search False (snd p) command of
        Some m \<Rightarrow> Some m
      | None \<Rightarrow> first_search ps command)"

definition extract_url_from_original_command :: "string \<Rightarrow> string" where
  "extract_url_from_original_command command =
     (case first_search url_patterns command of
        Some m \<Rightarrow> group0 m
      | None \<Rightarrow>
          (case filter (\<lambda>word. list_ex (\<lambda>ext. str_contains word ext)
                                 [''.com'', ''.org'', ''.net'', ''.io'', ''.in'', ''.edu'', ''.gov''])
                       (str_split command) of
             word # _ \<Rightarrow> word
           | [] \<Rightarrow> command))"

subsection \<open>The handlers\<close>

definition handle_security_question :: "string \<Rightarrow> string \<Rightarrow> cns \<Rightarrow> CommandResult \<times> cns" where
  "handle_security_question security_response original_command s =
     (let url = extract_url_from_original_command original_command;
          clean_question = str_strip (remove_sub ''ASK_USER:'' 0 security_response)
      in (\<lparr> cr_success = False, cr_response = Some [], cr_source_brain = ''SecurityBrain'',
            cr_requires_clarification = True, cr_clarification_message = Some clean_question \<rparr>,
          s\<lparr> pending_security_question :=
                Some \<lparr> sq_question = security_response, sq_url = url,
                       sq_original_command = original_command \<rparr>,
             security_checks := security_checks s + 1 \<rparr>))"

definition truthy :: "string option \<Rightarrow> bool" where
  "truthy r = (case r of None \<Rightarrow> False | Some t \<Rightarrow> t \<noteq> [])"

definition fallback_result :: CommandResult where
  "fallback_result =
     \<lparr> cr_success = False,
       cr_response = Some (''I'' @ [CHR 0x27] @ ''m not sure how to help with that, Boss. Could you try rephrasing your request?''),
       cr_source_brain = ''CNS_Fallback'', cr_requires_clarification = False,
       cr_clarification_message = None \<rparr>"

definition success_result :: "string option \<Rightarrow> string \<Rightarrow> CommandResult" where
  "success_result response source =
     \<lparr> cr_success = True, cr_response = response, cr_source_brain = source,
       cr_requires_clarification = False, cr_clarification_message = None \<rparr>"

text \<open>The third stage of \<open>_process_command_enhanced\<close>: the automation brain on the raw command.\<close>

definition try_automation_brain :: "env \<Rightarrow> string \<Rightarrow> cns \<Rightarrow> CommandResult \<times> cns" where
  "try_automation_brain e command s =
     (case automation_brain e of
        None \<Rightarrow> (fallback_result, s)
      | Some execute_command \<Rightarrow>
          let s1 = log_call (ExecuteCommand command) s in
          (case execute_command command of
             Raises \<Rightarrow> (fallback_result, s1)
           | Returns automation_response \<Rightarrow>
               if truthy automation_response
               then (if startswith (the automation_response) ''ASK_USER:''
                     then handle_security_question (the automation_response) command s1
                     else (success_result automation_response ''AutomationBrain'', s1))
               else (fallback_result, s1)))"

text \<open>The second stage: the response brain, then the third stage.\<close>

definition try_response_brain :: "env \<Rightarrow> string \<Rightarrow> cns \<Rightarrow> CommandResult \<times> cns" where
  "try_response_brain e command s =
     (case response_brain e of
        None \<Rightarrow> try_automation_brain e command s
      | Some process_command \<Rightarrow>
          let s1 = log_call (ProcessCommand command) s in
          (case process_command command of
             Raises \<Rightarrow> try_automation_brain e command s1
           | Returns response \<Rightarrow>
               if truthy response then (success_result response ''ResponseBrain'', s1)
               else try_automation_brain e command s1))"

definition process_command_enhanced :: "env \<Rightarrow> string \<Rightarrow> cns \<Rightarrow> CommandResult \<times> cns" where
  "process_command_enhanced e command s =
     (case decision_brain s of
        None \<Rightarrow> try_response_brain e command s
      | Some b \<Rightarrow>
          let s0 = log_call (MakeDecision command (interrupt_pending s)) s;
              (decision_result, b') = make_decision b command;
              s1 = s0\<lparr> decision_brain := Some b' \<rparr>
          in (case decision_result of
                None \<Rightarrow> try_response_brain e command s1
              | Some d \<Rightarrow>
                  if dr_success d \<and> truthy (dr_automation_command d)
                  then (case automation_brain e of
                          None \<Rightarrow> try_response_brain e command s1
                        | Some execute_command \<Rightarrow>
                            let s2 = log_call (ExecuteCommand (the (dr_automation_command d))) s1 in
                            (case execute_command (the (dr_automation_command d)) of
                               Raises \<Rightarrow> try_response_brain e command s2
                             | Returns automation_response \<Rightarrow>
                                 if truthy automation_response
                                    \<and> startswith (the automation_response) ''ASK_USER:''
                                 then handle_security_question (the automation_response) command s2
                                 else (success_result automation_response ''DecisionBrain->AutomationBrain'', s2)))
                  else if dr_clarification_needed d
                  then (\<lparr> cr_success = False, cr_response = Some [], cr_source_brain = ''DecisionBrain'',
                          cr_requires_clarification = True,
                          cr_clarification_message = dr_clarification_message d \<rparr>,
                        s1\<lparr> pending_decision_clarification :=
                              Some \<lparr> cc_original_command = command, cc_decision_result = d \<rparr> \<rparr>)
                  else try_response_brain e command s1))"

definition clarification_error_result :: CommandResult where
  "clarification_error_result =
     \<lparr> cr_success = False,
       cr_response = Some (''I had trouble understanding your clarification, Boss. Let'' @ [CHR 0x27] @ ''s start over.''),
       cr_source_brain = ''CNS_Error_Handler'', cr_requires_clarification = False,
       cr_clarification_message = None \<rparr>"

text \<open>
  \<open>_handle_decision_clarification\<close> clears the pending clarification first. An exception
  of the decision brain or of the automation brain ends in the \<open>except\<close> branch.
\<close>

definition handle_decision_clarification :: "env \<Rightarrow> string \<Rightarrow> cns \<Rightarrow> CommandResult \<times> cns" where
  "handle_decision_clarification e user_response s =
     (case pending_decision_clarification s of
        None \<Rightarrow> (clarification_error_result, s)
      | Some clarification_context \<Rightarrow>
          let original_command = cc_original_command clarification_context;
              s0 = s\<lparr> pending_decision_clarification := None \<rparr>;
              retry = original_command @ '' '' @ user_response
          in (case decision_brain s0 of
                None \<Rightarrow> process_command_enhanced e retry s0
              | Some b \<Rightarrow>
                  let s1 = log_call (HandleClarificationResponse original_command user_response) s0 in
                  (case handle_clarification_response b original_command user_response of
                     Inl err \<Rightarrow> (clarification_error_result, s1)
                   | Inr (None, b') \<Rightarrow> process_command_enhanced e retry (s1\<lparr> decision_brain := Some b' \<rparr>)
                   | Inr (Some result, b') \<Rightarrow>
                       let s2 = s1\<lparr> decision_brain := Some b' \<rparr> in
                       if dr_success result
                       then (case automation_brain e of
                               None \<Rightarrow> process_command_enhanced e retry s2
                             | Some execute_command \<Rightarrow>
                                 if truthy (dr_automation_command result)
                                 then
                                   (let s3 = log_call (ExecuteCommand (the (dr_automation_command result))) s2 in
                                    case execute_command (the (dr_automation_command result)) of
                                      Raises \<Rightarrow> (clarification_error_result, s3)
                                    | Returns automation_response \<Rightarrow>
                                        if truthy automation_response
                                        then (success_result automation_response ''DecisionBrain->AutomationBrain'', s3)
                                        else process_command_enhanced e retry s3)
                                 else process_command_enhanced e retry s2)
                       else if dr_clarification_needed result
                       then (\<lparr> cr_success = False, cr_response = Some [], cr_source_brain = ''DecisionBrain'',
                               cr_requires_clarification = True,
                               cr_clarification_message = dr_clarification_message result \<rparr>,
                             s2\<lparr> pending_decision_clarification :=
                                   Some \<lparr> cc_original_command = original_command,
                                          cc_decision_result = result \<rparr> \<rparr>)
                       else process_command_enhanced e retry s2)))"

text \<open>
  \<open>_handle_security_response\<close>. The domain comes from the security brain, or from
  \<open>urlparse\<close> when no security brain is loaded. The \<open>except\<close> branch clears the pending
  question and reports the exception.
\<close>

definition security_error_response :: string where
  "security_error_response = ''Boss, I had trouble processing your security decision: ''"

definition open_after_grant :: "env \<Rightarrow> string \<Rightarrow> string \<Rightarrow> cns \<Rightarrow> string \<times> cns" where
  "open_after_grant e url final_response s =
     (case automation_brain e of
        None \<Rightarrow> (final_response, s\<lparr> pending_security_question := None \<rparr>)
      | Some execute_command \<Rightarrow>
          let s1 = log_call (OpenWebsite url) s in
          (case open_website e url of
             Raises \<Rightarrow> (security_error_response, s1\<lparr> pending_security_question := None \<rparr>)
           | Returns u \<Rightarrow> (final_response, s1\<lparr> pending_security_question := None \<rparr>)))"

text \<open>The answers that \<open>_handle_security_response\<close> recognises, and its reply to any other.\<close>

definition grant_answers :: "string list" where
  "grant_answers = [''yes'', ''y'', ''allow'', ''allow permanently'', ''permanently'']"

definition deny_answers :: "string list" where
  "deny_answers = [''no'', ''n'', ''block'', ''deny'', ''never'']"

definition once_answers :: "string list" where
  "once_answers = [''this time only'', ''once'', ''just once'', ''temporary'', ''temp'']"

definition security_reprompt :: string where
  "security_reprompt =
     ''I didn'' @ [CHR 0x27] @ ''t understand that, Boss. Please answer with ''
     @ [CHR 0x27] @ ''yes'' @ [CHR 0x27] @ '', '' @ [CHR 0x27] @ ''no'' @ [CHR 0x27]
     @ '', or '' @ [CHR 0x27] @ ''this time only'' @ [CHR 0x27] @ ''.''"

definition handle_security_response :: "env \<Rightarrow> string \<Rightarrow> cns \<Rightarrow> string \<times> cns" where
  "handle_security_response e user_answer s =
     (let answer = str_strip (str_lower user_answer) in
      case pending_security_question s of
        None \<Rightarrow> (security_error_response, s)
      | Some security_context \<Rightarrow>
          let url = sq_url security_context in
          (case (case security_brain s of
                   Some sb \<Rightarrow> Some (extract_domain url)
                 | None \<Rightarrow> netloc_of (''https://'' @ url)) of
             None \<Rightarrow> (security_error_response, s\<lparr> pending_security_question := None \<rparr>)
           | Some domain \<Rightarrow>
               if answer \<in> set grant_answers
               then
                 (let s1 = (case security_brain s of
                              None \<Rightarrow> s
                            | Some sb \<Rightarrow> (log_call (AddTrusted domain) s)
                                           \<lparr> security_brain := Some (snd (add_to_trusted domain sb)) \<rparr>)
                  in open_after_grant e url
                       (''Understood, Boss. I'' @ [CHR 0x27] @ ''ve added '' @ [CHR 0x27] @ domain @ [CHR 0x27]
                        @ '' to the VIP list. Opening it now.'') s1)
               else if answer \<in> set deny_answers
               then
                 (let s1 = (case security_brain s of
                              None \<Rightarrow> s
                            | Some sb \<Rightarrow> (log_call (AddBlocked domain) s)
                                           \<lparr> security_brain := Some (snd (add_to_blocked domain sb)) \<rparr>)
                  in (''Got it, Boss. I'' @ [CHR 0x27] @ ''ve added '' @ [CHR 0x27] @ domain @ [CHR 0x27]
                      @ '' to the blocklist. Access will be denied in the future.'',
                      s1\<lparr> pending_security_question := None \<rparr>))
               else if answer \<in> set once_answers
               then
                 (let s1 = (case security_brain s of
                              None \<Rightarrow> s
                            | Some sb \<Rightarrow> (log_call (AddOneTime domain) s)
                                           \<lparr> security_brain := Some (snd (add_to_one_time domain sb)) \<rparr>)
                  in open_after_grant e url
                       (''Okay, Boss. Granting one-time access to '' @ [CHR 0x27] @ domain @ [CHR 0x27] @ ''.'') s1)
               else (security_reprompt, s)))"

text \<open>
  \<open>handle_command\<close>: a pending security question takes the command first, then a pending
  clarification; only with neither is the command processed afresh.
\<close>

definition count_result :: "CommandResult \<Rightarrow> cns \<Rightarrow> cns" where
  "count_result r s =
     (let s1 = (if cr_success r then s\<lparr> successful_commands := successful_commands s + 1 \<rparr>
                else s\<lparr> failed_commands := failed_commands s + 1 \<rparr>)
      in if cr_requires_clarification r
         then s1\<lparr> clarifications_requested := clarifications_requested s1 + 1 \<rparr> else s1)"

definition handle_command :: "env \<Rightarrow> string \<Rightarrow> cns \<Rightarrow> CommandResult \<times> cns" where
  "handle_command e command s0 =
     (let s = s0\<lparr> commands_processed := commands_processed s0 + 1, last_command := Some command \<rparr>;
          (command_result, s') =
            (if pending_security_question s \<noteq> None
             then (let (result_response, s1) = handle_security_response e command s
                   in (success_result (Some result_response) ''SecurityBrain'', s1))
             else if pending_decision_clarification s \<noteq> None
             then handle_decision_clarification e command s
             else process_command_enhanced e command s)
      in (command_result, count_result command_result s'))"

text \<open>A session: the commands one after the other, each with what the collaborators answer.\<close>

fun run_commands :: "(env \<times> string) list \<Rightarrow> cns \<Rightarrow> cns" where
  "run_commands [] s = s"
| "run_commands ((e, command) # rest) s = run_commands rest (snd (handle_command e command s))"

section \<open>The scoring rule in the words of the specification\<close>

text \<open>
  The specification gives the score of a pattern that matches as the base confidence of
  its tier, plus 0.1 if the match spans the entire utterance, plus 0.1 times the ratio of
  the length of the matched span to the length of the utterance, capped at 1.0.
  \<open>spec_raw_score\<close> is that sum, \<open>spec_score\<close> the capped value. \<open>spec_pattern_scores\<close>
  lists, for the pattern groups of one intent and an utterance, every pattern that
  matches with its sum, tier by tier; it is what the loops of the resolver are compared
  with.
\<close>

definition spec_raw_score :: "rat \<Rightarrow> string \<Rightarrow> string \<Rightarrow> rat" where
  "spec_raw_score base matched utterance =
     base + (if matched = utterance then 1 / 10 else 0)
          + (1 / 10) * (of_nat (length matched) / of_nat (length utterance))"

definition spec_score :: "rat \<Rightarrow> string \<Rightarrow> string \<Rightarrow> rat" where
  "spec_score base matched utterance = min 1 (spec_raw_score base matched utterance)"

definition spec_tier_scores :: "rat \<Rightarrow> pattern list \<Rightarrow> string \<Rightarrow> (rat \<times> string) list" where
  "spec_tier_scores base ps utterance =
     concat (map (\<lambda>p. case re_search False (snd p) utterance of
                          None \<Rightarrow> []
                        | Some m \<Rightarrow> [(spec_raw_score base (group0 m) utterance, fst p)]) ps)"

definition spec_pattern_scores :: "(string \<times> pattern list) list \<Rightarrow> string \<Rightarrow> (rat \<times> string) list" where
  "spec_pattern_scores pattern_groups utterance =
     concat (map (\<lambda>(level, base). case map_of pattern_groups level of
                                     None \<Rightarrow> []
                                   | Some ps \<Rightarrow> spec_tier_scores base ps utterance)
                 [(''high_confidence'', 9 / 10), (''medium_confidence'', 6 / 10), (''low_confidence'', 3 / 10)])"

text \<open>
  The update of the running best in the loops of the resolver
  (\<open>if pattern_confidence > best_confidence\<close>): a scored pattern replaces the best so
  far only when its score is strictly higher.
\<close>

definition keep_best :: "rat \<times> string \<Rightarrow> rat \<times> string \<Rightarrow> rat \<times> string" where
  "keep_best x acc = (if fst x > fst acc then x else acc)"

section \<open>Example states\<close>

text \<open>
  A store with two \<open>IntentMatch\<close> objects at addresses 1 and 2 and the list \<open>[1, 2]\<close> at
  address 0.
\<close>

definition example_store :: store where
  "example_store =
     \<lparr> objs = (\<lambda>a. if a = 1
                   then \<lparr> intent = ''play_music'', confidence = 13 / 20,
                          matched_pattern = ''play.*music'', extracted_entities = [] \<rparr>
                   else \<lparr> intent = ''get_info'', confidence = 6 / 10,
                          matched_pattern = ''what.*(.+)'',
                          extracted_entities = [(''primary_entity'', Some ''x'')] \<rparr>),
       lists = (\<lambda>l. if l = 0 then [1, 2] else []) \<rparr>"

definition example_ctx :: session_ctx where
  "example_ctx = \<lparr> last_intent = Some ''get_info'', time_of_day = ''afternoon'' \<rparr>"

text \<open>
  The objects and the list that the resolver hands to the booster for a command: the
  candidates of the scan are objects at the addresses 1, 2, ... in the order in which
  they are created (the order of the pattern bank), and the list object, at address 0,
  holds them in the order of the first ranking. (When the scan raises, the booster is
  not called; the store then holds the empty list.)
\<close>

definition resolver_store :: "brain \<Rightarrow> string \<Rightarrow> store" where
  "resolver_store b command =
     (let cands = (case scan_intents (entity_extractors b) command (str_strip (str_lower command))
                          (intent_patterns b) [] of
                     Inl e \<Rightarrow> []
                   | Inr intent_matches \<Rightarrow> intent_matches);
          objects = (\<lambda>a. if 0 < a \<and> a \<le> length cands then cands ! (a - 1)
                         else \<lparr> intent = [], confidence = 0, matched_pattern = [],
                                extracted_entities = [] \<rparr>)
      in \<lparr> objs = objects,
           lists = (\<lambda>l. if l = 0
                        then sort_key (\<lambda>a. - confidence (objects a)) [1 ..< Suc (length cands)]
                        else []) \<rparr>)"

text \<open>The lists of the mock configuration at the end of \<open>security_brain.py\<close>.\<close>

definition example_security_brain :: security_brain where
  "example_security_brain =
     new_security_brain [''github.com'', ''stackoverflow.com''] [''malicious-site.com''] [''temp-site.com'']"

text \<open>
  A brain that has already counted choices for \<open>get_info\<close>: one utterance once, and the
  action name \<open>search_wikipedia\<close> twice.
\<close>

definition example_brain_with_preferences :: brain where
  "example_brain_with_preferences =
     (new_brain ''afternoon'')
       \<lparr> user_preferences := [(''get_info'', [(''what is y'', 1), (''search_wikipedia'', 2)])] \<rparr>"

text \<open>The default brain, in the afternoon, after it has decided the command \<open>what is x\<close>.\<close>

definition example_brain_after_what_is_x :: brain where
  "example_brain_after_what_is_x = snd (make_decision (new_brain ''afternoon'') ''what is x'')"

text \<open>
  A CNS with a security brain whose lists are empty and no decision brain. The automation
  brain of the repository is not among its sources; the one here stands in for it in the
  examples and asks for permission whatever it is given, so the command
  \<open>open example.com\<close> leaves a security question pending.
\<close>

definition example_env :: env where
  "example_env =
     \<lparr> automation_brain = Some (\<lambda>command. Returns (Some ''ASK_USER:This is a new site. How should I proceed?'')),
       open_website = (\<lambda>url. Returns ()),
       response_brain = None \<rparr>"

definition example_cns :: cns where
  "example_cns = new_cns None (Some (new_security_brain [] [] []))"

definition example_cns_pending :: cns where
  "example_cns_pending = snd (handle_command example_env ''open example.com'' example_cns)"

text \<open>
  A CNS with the default decision brain at night, after the command \<open>play something\<close>:
  the decision brain has asked for clarification.
\<close>

definition example_cns_clarifying :: cns where
  "example_cns_clarifying =
     snd (handle_command example_env ''play something''
            (new_cns (Some (new_brain ''night'')) (Some (new_security_brain [] [] []))))"

text \<open>
  A CNS with the default decision brain and the security brain of the mock
  configuration, in the state in which \<open>_handle_security_question\<close> leaves it for the
  command \<open>go to www.www.example.com\<close>, when the answer of the automation brain is what
  \<open>check_website_access\<close> returns for the URL \<open>www.www.example.com\<close> of that command.
\<close>

definition example_cns_www :: cns where
  "example_cns_www = new_cns (Some (new_brain ''afternoon'')) (Some example_security_brain)"

definition example_cns_pending_www :: cns where
  "example_cns_pending_www =
     snd (handle_security_question
            (case fst (check_website_access ''www.www.example.com'' example_security_brain) of
               DENIED \<Rightarrow> ''DENIED''
             | ALLOWED \<Rightarrow> ''ALLOWED''
             | ASK_USER question \<Rightarrow> ''ASK_USER:'' @ question)
            ''go to www.www.example.com'' example_cns_www)"

section \<open>Properties of context boosting\<close>

lemma lists_fold_update_obj: "lists (fold (update_obj f) xs h) = lists h"
  by (induction xs arbitrary: h) (simp_all add: update_obj_def)

lemma objs_update_obj: "objs (update_obj f a h) b = (if b = a then f (objs h a) else objs h b)"
  by (simp add: update_obj_def)

lemma objs_fold_update_obj_funpow:
  "objs (fold (update_obj f) xs h) a = (f ^^ count_list xs a) (objs h a)"
proof (induction xs arbitrary: h)
  case Nil
  then show ?case by simp
next
  case (Cons x xs)
  show ?case
    by (simp add: Cons.IH objs_update_obj funpow_swap1)
qed

lemma objs_boosted:
  "objs (snd (apply_context_boosting_inplace ctx l h)) a =
     (boost_time (time_of_day ctx) ^^ count_list (lists h l) a)
       ((boost_last_intent (last_intent ctx) ^^ count_list (lists h l) a) (objs h a))"
  by (simp add: apply_context_boosting_inplace_def Let_def lists_fold_update_obj
      objs_fold_update_obj_funpow)

lemma boost_last_intent_fields:
  "intent (boost_last_intent li m) = intent m"
  "matched_pattern (boost_last_intent li m) = matched_pattern m"
  "extracted_entities (boost_last_intent li m) = extracted_entities m"
  by (auto simp: boost_last_intent_def split: option.splits)

lemma boost_time_fields:
  "intent (boost_time t m) = intent m"
  "matched_pattern (boost_time t m) = matched_pattern m"
  "extracted_entities (boost_time t m) = extracted_entities m"
  by (auto simp: boost_time_def)

lemma boost_last_intent_mono:
  "confidence m \<le> 1 \<Longrightarrow>
   confidence m \<le> confidence (boost_last_intent li m) \<and> confidence (boost_last_intent li m) \<le> 1"
  by (auto simp: boost_last_intent_def split: option.splits)

lemma boost_time_mono:
  "confidence m \<le> 1 \<Longrightarrow>
   confidence m \<le> confidence (boost_time t m) \<and> confidence (boost_time t m) \<le> 1"
  by (auto simp: boost_time_def)

lemma funpow_mono_conf:
  fixes f :: "IntentMatch \<Rightarrow> IntentMatch"
  assumes step: "\<And>m. confidence m \<le> 1 \<Longrightarrow> confidence m \<le> confidence (f m) \<and> confidence (f m) \<le> 1"
  shows "confidence m \<le> 1 \<Longrightarrow> confidence m \<le> confidence ((f ^^ n) m) \<and> confidence ((f ^^ n) m) \<le> 1"
proof (induction n)
  case 0
  then show ?case by simp
next
  case (Suc n)
  then have a: "confidence m \<le> confidence ((f ^^ n) m)" and b: "confidence ((f ^^ n) m) \<le> 1"
    by auto
  from step[OF b] a show ?case by auto
qed

text \<open>
  C9. Context boosting is monotonic: a match whose confidence is at most 1 has, after
  boosting, a confidence that is at least its confidence before and still at most 1. The
  statement is about the object at any address \<open>a\<close>, so it follows each match through
  the re-sorting of the list, also when the list holds the same object more than once.
\<close>

theorem boosting_monotone:
  assumes "confidence (objs h a) \<le> 1"
  shows "confidence (objs h a) \<le> confidence (objs (snd (apply_context_boosting_inplace ctx l h)) a)
       \<and> confidence (objs (snd (apply_context_boosting_inplace ctx l h)) a) \<le> 1"
proof -
  let ?f = "boost_last_intent (last_intent ctx)"
  let ?g = "boost_time (time_of_day ctx)"
  let ?n = "count_list (lists h l) a"
  have 1: "confidence (objs h a) \<le> confidence ((?f ^^ ?n) (objs h a))
         \<and> confidence ((?f ^^ ?n) (objs h a)) \<le> 1"
    by (rule funpow_mono_conf[OF boost_last_intent_mono assms])
  then have 2: "confidence ((?f ^^ ?n) (objs h a)) \<le> 1" by simp
  have 3: "confidence ((?f ^^ ?n) (objs h a)) \<le> confidence ((?g ^^ ?n) ((?f ^^ ?n) (objs h a)))
         \<and> confidence ((?g ^^ ?n) ((?f ^^ ?n) (objs h a))) \<le> 1"
    by (rule funpow_mono_conf[OF boost_time_mono 2])
  from 1 3 show ?thesis unfolding objs_boosted by linarith
qed

theorem boosting_monotone_witness:
  "confidence (objs example_store 2) \<le> 1
   \<and> confidence (objs example_store 2)
       < confidence (objs (snd (apply_context_boosting_inplace example_ctx 0 example_store)) 2)
   \<and> confidence (objs (snd (apply_context_boosting_inplace example_ctx 0 example_store)) 2) \<le> 1"
proof -
  have h: "confidence (objs example_store 2) \<le> 1"
    by (simp add: example_store_def)
  have "confidence (objs (snd (apply_context_boosting_inplace example_ctx 0 example_store)) 2) = 7 / 10"
    by (simp add: objs_boosted example_store_def example_ctx_def boost_last_intent_def
        boost_time_def time_boosts_def)
  moreover have "confidence (objs example_store 2) = 6 / 10"
    by (simp add: example_store_def)
  ultimately show ?thesis
    using boosting_monotone[OF h, of example_ctx 0] by simp
qed

lemma lists_boosted:
  "lists (snd (apply_context_boosting_inplace ctx l h)) l' =
     (if l' = l
      then sort_key (\<lambda>a. - confidence (objs (snd (apply_context_boosting_inplace ctx l h)) a)) (lists h l)
      else lists h l')"
  by (simp add: apply_context_boosting_inplace_def Let_def lists_fold_update_obj)

lemma funpow_fields:
  fixes f :: "IntentMatch \<Rightarrow> IntentMatch"
  assumes "\<And>m. intent (f m) = intent m" "\<And>m. matched_pattern (f m) = matched_pattern m"
          "\<And>m. extracted_entities (f m) = extracted_entities m"
  shows "intent ((f ^^ n) m) = intent m \<and> matched_pattern ((f ^^ n) m) = matched_pattern m
         \<and> extracted_entities ((f ^^ n) m) = extracted_entities m"
  by (induction n) (simp_all add: assms)

lemma objs_boosted_fields:
  "intent (objs (snd (apply_context_boosting_inplace ctx l h)) a) = intent (objs h a)"
  "matched_pattern (objs (snd (apply_context_boosting_inplace ctx l h)) a) = matched_pattern (objs h a)"
  "extracted_entities (objs (snd (apply_context_boosting_inplace ctx l h)) a)
     = extracted_entities (objs h a)"
proof -
  let ?f = "boost_last_intent (last_intent ctx)"
  let ?g = "boost_time (time_of_day ctx)"
  let ?n = "count_list (lists h l) a"
  have f: "intent ((?f ^^ ?n) (objs h a)) = intent (objs h a)
         \<and> matched_pattern ((?f ^^ ?n) (objs h a)) = matched_pattern (objs h a)
         \<and> extracted_entities ((?f ^^ ?n) (objs h a)) = extracted_entities (objs h a)"
    by (rule funpow_fields) (simp_all add: boost_last_intent_fields)
  have g: "intent ((?g ^^ ?n) m) = intent m
         \<and> matched_pattern ((?g ^^ ?n) m) = matched_pattern m
         \<and> extracted_entities ((?g ^^ ?n) m) = extracted_entities m" for m
    by (rule funpow_fields) (simp_all add: boost_time_fields)
  show "intent (objs (snd (apply_context_boosting_inplace ctx l h)) a) = intent (objs h a)"
    by (simp add: objs_boosted f g)
  show "matched_pattern (objs (snd (apply_context_boosting_inplace ctx l h)) a) = matched_pattern (objs h a)"
    by (simp add: objs_boosted f g)
  show "extracted_entities (objs (snd (apply_context_boosting_inplace ctx l h)) a)
        = extracted_entities (objs h a)"
    by (simp add: objs_boosted f g)
qed

lemma objs_boosted_once:
  assumes "distinct (lists h l)" "a \<in> set (lists h l)"
  shows "objs (snd (apply_context_boosting_inplace ctx l h)) a
         = boost_time (time_of_day ctx) (boost_last_intent (last_intent ctx) (objs h a))"
proof -
  have "count_list xs a = 1" if "distinct xs" "a \<in> set xs" for xs :: "addr list"
    using that by (induction xs) auto
  from this[OF assms] show ?thesis by (simp add: objs_boosted)
qed

lemma map_insort_key:
  "map f (insort_key (\<lambda>x. g (f x)) x xs) = insort_key g (f x) (map f xs)"
  by (induction xs) simp_all

lemma map_sort_key:
  "map f (sort_key (\<lambda>x. g (f x)) xs) = sort_key g (map f xs)"
  by (induction xs) (simp_all add: map_insort_key)

lemma sorted_boosted:
  "sorted_wrt (\<lambda>a b. confidence (objs (snd (apply_context_boosting_inplace ctx l h)) a)
                     \<ge> confidence (objs (snd (apply_context_boosting_inplace ctx l h)) b))
     (lists (snd (apply_context_boosting_inplace ctx l h)) l)"
proof -
  let ?k = "\<lambda>a. - confidence (objs (snd (apply_context_boosting_inplace ctx l h)) a)"
  have "sorted (map ?k (sort_key ?k (lists h l)))" by (rule sorted_sort_key)
  then show ?thesis by (simp add: lists_boosted sorted_map)
qed

lemma stable_boosted:
  "filter (\<lambda>a. confidence (objs (snd (apply_context_boosting_inplace ctx l h)) a) = c)
     (lists (snd (apply_context_boosting_inplace ctx l h)) l)
   = filter (\<lambda>a. confidence (objs (snd (apply_context_boosting_inplace ctx l h)) a) = c) (lists h l)"
proof -
  let ?k = "\<lambda>a. - confidence (objs (snd (apply_context_boosting_inplace ctx l h)) a)"
  have "filter (\<lambda>a. ?k a = - c) (sort_key ?k (lists h l)) = filter (\<lambda>a. ?k a = - c) (lists h l)"
    by (rule sort_key_stable)
  then show ?thesis by (simp add: lists_boosted)
qed

text \<open>
  For a list without repeated objects, the in-place booster leaves in the list object
  the list of values that the function \<open>apply_context_boosting\<close> computes.
\<close>

lemma boosting_inplace_values:
  assumes "distinct (lists h l)"
  shows "map (objs (snd (apply_context_boosting_inplace ctx l h)))
             (lists (snd (apply_context_boosting_inplace ctx l h)) l)
         = apply_context_boosting ctx (map (objs h) (lists h l))"
proof -
  let ?h' = "snd (apply_context_boosting_inplace ctx l h)"
  have "map (objs ?h') (lists ?h' l)
        = map (objs ?h') (sort_key (\<lambda>a. - confidence (objs ?h' a)) (lists h l))"
    by (simp add: lists_boosted)
  also have "\<dots> = sort_key (\<lambda>m. - confidence m) (map (objs ?h') (lists h l))"
    by (rule map_sort_key)
  also have "map (objs ?h') (lists h l)
        = map (\<lambda>a. boost_time (time_of_day ctx) (boost_last_intent (last_intent ctx) (objs h a)))
              (lists h l)"
    by (rule map_cong[OF refl]) (rule objs_boosted_once[OF assms])
  finally show ?thesis
    by (simp add: apply_context_boosting_def sort_by_confidence_def comp_def)
qed

lemma resolver_store_list:
  assumes "scan_intents (entity_extractors b) command (str_strip (str_lower command))
             (intent_patterns b) [] = Inr cands"
  shows "map (objs (resolver_store b command)) (lists (resolver_store b command) 0)
           = sort_by_confidence cands"
    and "distinct (lists (resolver_store b command) 0)"
    and "mset (lists (resolver_store b command) 0) = mset [1 ..< Suc (length cands)]"
proof -
  let ?objects = "\<lambda>a. if 0 < a \<and> a \<le> length cands then cands ! (a - 1)
                         else \<lparr> intent = [], confidence = 0, matched_pattern = [],
                                extracted_entities = [] \<rparr>"
  have o: "objs (resolver_store b command) = ?objects"
    using assms by (simp add: resolver_store_def Let_def)
  have l: "lists (resolver_store b command) 0
           = sort_key (\<lambda>a. - confidence (?objects a)) [1 ..< Suc (length cands)]"
    using assms by (simp add: resolver_store_def Let_def)
  have m: "map ?objects [1 ..< Suc (length cands)] = cands"
    by (rule map_upt_eqI) simp_all
  have "map ?objects (sort_key (\<lambda>a. - confidence (?objects a)) [1 ..< Suc (length cands)])
        = sort_key (\<lambda>m. - confidence m) (map ?objects [1 ..< Suc (length cands)])"
    by (rule map_sort_key)
  then show "map (objs (resolver_store b command)) (lists (resolver_store b command) 0)
           = sort_by_confidence cands"
    unfolding o l m by (simp add: sort_by_confidence_def)
  show "distinct (lists (resolver_store b command) 0)"
    unfolding l by simp
  show "mset (lists (resolver_store b command) 0) = mset [1 ..< Suc (length cands)]"
    unfolding l by simp
qed

text \<open>
  So the in-place booster, run on the store of the resolver, leaves in the list object
  what \<open>determine_intent_with_confidence\<close> returns.
\<close>

lemma resolver_store_boosted:
  assumes "determine_intent_with_confidence b command = Inr out"
  shows "map (objs (snd (apply_context_boosting_inplace (session_context b) 0 (resolver_store b command))))
             (lists (snd (apply_context_boosting_inplace (session_context b) 0 (resolver_store b command))) 0)
         = out"
proof -
  from assms obtain cands where
    sc: "scan_intents (entity_extractors b) command (str_strip (str_lower command))
           (intent_patterns b) [] = Inr cands"
    and out: "out = apply_context_boosting (session_context b) (sort_by_confidence cands)"
    by (auto simp: determine_intent_with_confidence_def Let_def split: sum.splits)
  from boosting_inplace_values[OF resolver_store_list(2)[OF sc]] resolver_store_list(1)[OF sc] out
  show ?thesis by simp
qed

text \<open>
  C3, as the code has it. Context boosting works in place, on the objects and the list
  object it is given. It returns that list object. Every object is assigned its boosted
  value once for each time it occurs in the list: for a list without repeated objects,
  each object of the list is replaced by \<open>boost_time\<close> of \<open>boost_last_intent\<close> of itself
  (plus 0.1 for the last intent, then plus 0.05 for an intent the time of day favours,
  each capped at 1), and the list object then holds the values that the function
  \<open>apply_context_boosting\<close> computes from the values it held. An object that is not in
  the list does not change, and of any object only the confidence can change. The list
  object is sorted: it holds the same elements as before, in non-increasing order of the
  new confidences, and elements of equal new confidence keep their order. No other list
  changes.
\<close>

theorem boosting_in_place:
  "fst (apply_context_boosting_inplace ctx l h) = l
   \<and> (\<forall>a. objs (snd (apply_context_boosting_inplace ctx l h)) a
            = (boost_time (time_of_day ctx) ^^ count_list (lists h l) a)
                ((boost_last_intent (last_intent ctx) ^^ count_list (lists h l) a) (objs h a)))
   \<and> (distinct (lists h l) \<longrightarrow>
        (\<forall>a\<in>set (lists h l). objs (snd (apply_context_boosting_inplace ctx l h)) a
            = boost_time (time_of_day ctx) (boost_last_intent (last_intent ctx) (objs h a)))
        \<and> map (objs (snd (apply_context_boosting_inplace ctx l h)))
              (lists (snd (apply_context_boosting_inplace ctx l h)) l)
            = apply_context_boosting ctx (map (objs h) (lists h l)))
   \<and> (\<forall>a. a \<notin> set (lists h l) \<longrightarrow> objs (snd (apply_context_boosting_inplace ctx l h)) a = objs h a)
   \<and> (\<forall>a. intent (objs (snd (apply_context_boosting_inplace ctx l h)) a) = intent (objs h a)
          \<and> matched_pattern (objs (snd (apply_context_boosting_inplace ctx l h)) a) = matched_pattern (objs h a)
          \<and> extracted_entities (objs (snd (apply_context_boosting_inplace ctx l h)) a)
              = extracted_entities (objs h a))
   \<and> mset (lists (snd (apply_context_boosting_inplace ctx l h)) l) = mset (lists h l)
   \<and> sorted_wrt (\<lambda>a b. confidence (objs (snd (apply_context_boosting_inplace ctx l h)) a)
                        \<ge> confidence (objs (snd (apply_context_boosting_inplace ctx l h)) b))
        (lists (snd (apply_context_boosting_inplace ctx l h)) l)
   \<and> (\<forall>c. filter (\<lambda>a. confidence (objs (snd (apply_context_boosting_inplace ctx l h)) a) = c)
               (lists (snd (apply_context_boosting_inplace ctx l h)) l)
          = filter (\<lambda>a. confidence (objs (snd (apply_context_boosting_inplace ctx l h)) a) = c)
               (lists h l))
   \<and> (\<forall>l'. l' \<noteq> l \<longrightarrow> lists (snd (apply_context_boosting_inplace ctx l h)) l' = lists h l')"
proof (intro conjI allI impI ballI)
  show "fst (apply_context_boosting_inplace ctx l h) = l"
    by (simp add: apply_context_boosting_inplace_def Let_def)
  show "objs (snd (apply_context_boosting_inplace ctx l h)) a
            = (boost_time (time_of_day ctx) ^^ count_list (lists h l) a)
                ((boost_last_intent (last_intent ctx) ^^ count_list (lists h l) a) (objs h a))" for a
    by (rule objs_boosted)
  show "objs (snd (apply_context_boosting_inplace ctx l h)) a
            = boost_time (time_of_day ctx) (boost_last_intent (last_intent ctx) (objs h a))"
    if "distinct (lists h l)" "a \<in> set (lists h l)" for a
    using that by (rule objs_boosted_once)
  show "map (objs (snd (apply_context_boosting_inplace ctx l h)))
              (lists (snd (apply_context_boosting_inplace ctx l h)) l)
            = apply_context_boosting ctx (map (objs h) (lists h l))"
    if "distinct (lists h l)"
    using that by (rule boosting_inplace_values)
  show "objs (snd (apply_context_boosting_inplace ctx l h)) a = objs h a"
    if "a \<notin> set (lists h l)" for a
    using that by (simp add: objs_boosted count_list_0_iff)
  show "intent (objs (snd (apply_context_boosting_inplace ctx l h)) a) = intent (objs h a)" for a
    by (rule objs_boosted_fields)
  show "matched_pattern (objs (snd (apply_context_boosting_inplace ctx l h)) a)
        = matched_pattern (objs h a)" for a
    by (rule objs_boosted_fields)
  show "extracted_entities (objs (snd (apply_context_boosting_inplace ctx l h)) a)
        = extracted_entities (objs h a)" for a
    by (rule objs_boosted_fields)
  show "mset (lists (snd (apply_context_boosting_inplace ctx l h)) l) = mset (lists h l)"
    by (simp add: lists_boosted)
  show "sorted_wrt (\<lambda>a b. confidence (objs (snd (apply_context_boosting_inplace ctx l h)) a)
                        \<ge> confidence (objs (snd (apply_context_boosting_inplace ctx l h)) b))
        (lists (snd (apply_context_boosting_inplace ctx l h)) l)"
    by (rule sorted_boosted)
  show "filter (\<lambda>a. confidence (objs (snd (apply_context_boosting_inplace ctx l h)) a) = c)
               (lists (snd (apply_context_boosting_inplace ctx l h)) l)
          = filter (\<lambda>a. confidence (objs (snd (apply_context_boosting_inplace ctx l h)) a) = c)
               (lists h l)" for c
    by (rule stable_boosted)
  show "lists (snd (apply_context_boosting_inplace ctx l h)) l' = lists h l'" if "l' \<noteq> l" for l'
    using that by (simp add: lists_boosted)
qed


subsection \<open>The booster on the list of the resolver for \<open>play video\<close> at night\<close>

lemma strip_play_video:
  "str_strip (str_lower ''play video'') = ''play video''"
  by code_simp

lemma scan_play_video:
  "scan_intents entity_extractors_table ''play video'' ''play video'' intent_patterns_table []
   = Inr [\<lparr>intent = ''find_video'', confidence = 7 / 20,
          matched_pattern = ''video'', extracted_entities = []\<rparr>,
         \<lparr>intent = ''play_music'', confidence = 17 / 50,
          matched_pattern = ''play'', extracted_entities = []\<rparr>]"
  by code_simp

lemma scan_play_video_night:
  "scan_intents (entity_extractors (new_brain ''night'')) ''play video''
     (str_strip (str_lower ''play video'')) (intent_patterns (new_brain ''night'')) []
   = Inr [\<lparr>intent = ''find_video'', confidence = 7 / 20,
          matched_pattern = ''video'', extracted_entities = []\<rparr>,
         \<lparr>intent = ''play_music'', confidence = 17 / 50,
          matched_pattern = ''play'', extracted_entities = []\<rparr>]"
  by (simp add: new_brain_def strip_play_video scan_play_video)

lemma night_ctx:
  "last_intent (session_context (new_brain ''night'')) = None"
  "time_of_day (session_context (new_brain ''night'')) = ''night''"
  by (simp_all add: new_brain_def)

lemma upt_1_3: "[1 ..< Suc (Suc (Suc 0))] = [1, 2]"
  by (simp add: upt_rec)

lemma play_video_store:
  "objs (resolver_store (new_brain ''night'') ''play video'') a
     = (if a = 1 then \<lparr>intent = ''find_video'', confidence = 7 / 20,
                       matched_pattern = ''video'', extracted_entities = []\<rparr>
        else if a = 2 then \<lparr>intent = ''play_music'', confidence = 17 / 50,
                             matched_pattern = ''play'', extracted_entities = []\<rparr>
        else \<lparr>intent = [], confidence = 0, matched_pattern = [], extracted_entities = []\<rparr>)"
  "lists (resolver_store (new_brain ''night'') ''play video'') l = (if l = 0 then [1, 2] else [])"
  by (auto simp: resolver_store_def Let_def scan_play_video_night upt_1_3)

lemma play_video_boosted_objs:
  "objs (snd (apply_context_boosting_inplace (session_context (new_brain ''night'')) 0
               (resolver_store (new_brain ''night'') ''play video''))) a
     = (if a = 1 then \<lparr>intent = ''find_video'', confidence = 7 / 20,
                       matched_pattern = ''video'', extracted_entities = []\<rparr>
        else if a = 2 then \<lparr>intent = ''play_music'', confidence = 39 / 100,
                             matched_pattern = ''play'', extracted_entities = []\<rparr>
        else \<lparr>intent = [], confidence = 0, matched_pattern = [], extracted_entities = []\<rparr>)"
  by (simp add: objs_boosted play_video_store night_ctx boost_last_intent_def boost_time_def
      time_boosts_def)

lemma play_video_boosted_list:
  "lists (snd (apply_context_boosting_inplace (session_context (new_brain ''night'')) 0
               (resolver_store (new_brain ''night'') ''play video''))) 0 = [2, 1]"
  by (simp add: lists_boosted play_video_boosted_objs) (simp add: play_video_store)

theorem boosting_in_place_witness:
  "distinct (lists (resolver_store (new_brain ''night'') ''play video'') 0)
   \<and> 2 \<in> set (lists (resolver_store (new_brain ''night'') ''play video'') 0)
   \<and> 3 \<notin> set (lists (resolver_store (new_brain ''night'') ''play video'') 0)
   \<and> (1::nat) \<noteq> 0
   \<and> objs (snd (apply_context_boosting_inplace (session_context (new_brain ''night'')) 0
                  (resolver_store (new_brain ''night'') ''play video''))) 2
       = boost_time ''night'' (boost_last_intent None
           (objs (resolver_store (new_brain ''night'') ''play video'') 2))
   \<and> map (objs (snd (apply_context_boosting_inplace (session_context (new_brain ''night'')) 0
                       (resolver_store (new_brain ''night'') ''play video''))))
          (lists (snd (apply_context_boosting_inplace (session_context (new_brain ''night'')) 0
                        (resolver_store (new_brain ''night'') ''play video''))) 0)
       = apply_context_boosting (session_context (new_brain ''night''))
           (map (objs (resolver_store (new_brain ''night'') ''play video''))
                (lists (resolver_store (new_brain ''night'') ''play video'') 0))
   \<and> objs (snd (apply_context_boosting_inplace (session_context (new_brain ''night'')) 0
                  (resolver_store (new_brain ''night'') ''play video''))) 3
       = objs (resolver_store (new_brain ''night'') ''play video'') 3
   \<and> lists (snd (apply_context_boosting_inplace (session_context (new_brain ''night'')) 0
                   (resolver_store (new_brain ''night'') ''play video''))) 1
       = lists (resolver_store (new_brain ''night'') ''play video'') 1"
proof -
  let ?S = "resolver_store (new_brain ''night'') ''play video''"
  let ?c = "session_context (new_brain ''night'')"
  have d: "distinct (lists ?S 0)" and i: "2 \<in> set (lists ?S 0)" and n: "3 \<notin> set (lists ?S 0)"
    by (simp_all add: play_video_store)
  have z: "(1::nat) \<noteq> 0" by simp
  from boosting_in_place[of ?c 0 ?S] d i n z show ?thesis
    unfolding night_ctx by blast
qed

text \<open>
  C3, as the claim states it, fails. At night the command \<open>play video\<close> has the candidates
  \<open>find_video\<close> (0.35) and \<open>play_music\<close> (0.34); the resolver hands the booster the list
  \<open>[find_video, play_music]\<close>. After boosting, the \<open>play_music\<close> object that the resolver
  created has the confidence 0.39, and the list object that the resolver handed in, which
  is the list returned, holds \<open>[play_music, find_video]\<close>.
\<close>

theorem boosting_not_pure_counterexample:
  "scan_intents (entity_extractors (new_brain ''night'')) ''play video''
     (str_strip (str_lower ''play video'')) (intent_patterns (new_brain ''night'')) []
   = Inr [\<lparr>intent = ''find_video'', confidence = 7 / 20,
          matched_pattern = ''video'', extracted_entities = []\<rparr>,
         \<lparr>intent = ''play_music'', confidence = 17 / 50,
          matched_pattern = ''play'', extracted_entities = []\<rparr>]
   \<and> lists (resolver_store (new_brain ''night'') ''play video'') 0 = [1, 2]
   \<and> map (objs (resolver_store (new_brain ''night'') ''play video'')) [1, 2]
       = [\<lparr>intent = ''find_video'', confidence = 7 / 20,
           matched_pattern = ''video'', extracted_entities = []\<rparr>,
          \<lparr>intent = ''play_music'', confidence = 17 / 50,
           matched_pattern = ''play'', extracted_entities = []\<rparr>]
   \<and> fst (apply_context_boosting_inplace (session_context (new_brain ''night'')) 0
            (resolver_store (new_brain ''night'') ''play video'')) = 0
   \<and> confidence (objs (snd (apply_context_boosting_inplace (session_context (new_brain ''night'')) 0
                              (resolver_store (new_brain ''night'') ''play video''))) 2) = 39 / 100
   \<and> lists (snd (apply_context_boosting_inplace (session_context (new_brain ''night'')) 0
                   (resolver_store (new_brain ''night'') ''play video''))) 0 = [2, 1]
   \<and> determine_intent_with_confidence (new_brain ''night'') ''play video''
       = Inr [\<lparr>intent = ''play_music'', confidence = 39 / 100,
               matched_pattern = ''play'', extracted_entities = []\<rparr>,
              \<lparr>intent = ''find_video'', confidence = 7 / 20,
               matched_pattern = ''video'', extracted_entities = []\<rparr>]"
proof -
  have "determine_intent_with_confidence (new_brain ''night'') ''play video''
       = Inr [\<lparr>intent = ''play_music'', confidence = 39 / 100,
               matched_pattern = ''play'', extracted_entities = []\<rparr>,
              \<lparr>intent = ''find_video'', confidence = 7 / 20,
               matched_pattern = ''video'', extracted_entities = []\<rparr>]"
    by (simp add: determine_intent_with_confidence_def Let_def scan_play_video_night
        apply_context_boosting_def sort_by_confidence_def night_ctx boost_last_intent_def
        boost_time_def time_boosts_def)
  moreover have "fst (apply_context_boosting_inplace (session_context (new_brain ''night'')) 0
            (resolver_store (new_brain ''night'') ''play video'')) = 0"
    by (simp add: apply_context_boosting_inplace_def Let_def)
  ultimately show ?thesis
    by (simp add: scan_play_video_night play_video_store play_video_boosted_objs
        play_video_boosted_list)
qed

section \<open>Properties of the security lists\<close>

lemma add_to_trusted_discards:
  "fst (add_to_trusted d sb) \<Longrightarrow>
   extract_domain d \<in> trusted_sites (snd (add_to_trusted d sb))
   \<and> extract_domain d \<notin> blocked_sites (snd (add_to_trusted d sb))
   \<and> extract_domain d \<notin> one_time_sessions (snd (add_to_trusted d sb))"
  by (auto simp: add_to_trusted_def Let_def split: if_splits)

lemma add_to_blocked_discards:
  "fst (add_to_blocked d sb) \<Longrightarrow>
   extract_domain d \<in> blocked_sites (snd (add_to_blocked d sb))
   \<and> extract_domain d \<notin> trusted_sites (snd (add_to_blocked d sb))
   \<and> extract_domain d \<notin> one_time_sessions (snd (add_to_blocked d sb))"
  by (auto simp: add_to_blocked_def Let_def split: if_splits)

lemma apply_sec_op_disjoint:
  assumes "trusted_sites sb \<inter> blocked_sites sb = {}"
  shows "trusted_sites (apply_sec_op op sb) \<inter> blocked_sites (apply_sec_op op sb) = {}"
proof (cases op)
  case (AddToTrusted d)
  with assms show ?thesis by (auto simp: add_to_trusted_def Let_def)
next
  case (AddToBlocked d)
  with assms show ?thesis by (auto simp: add_to_blocked_def Let_def)
next
  case (AddToOneTime d)
  with assms show ?thesis by (auto simp: add_to_one_time_def Let_def)
next
  case (RemoveFromTrusted d)
  with assms show ?thesis by (auto simp: remove_from_trusted_def Let_def)
next
  case (RemoveFromBlocked d)
  with assms show ?thesis by (auto simp: remove_from_blocked_def Let_def)
next
  case ClearOneTimeSessions
  with assms show ?thesis by (auto simp: clear_one_time_sessions_def)
next
  case (CheckWebsiteAccess u)
  with assms show ?thesis by (auto simp: check_website_access_def Let_def)
qed

text \<open>
  C10. The trusted and the blocked list stay disjoint: from a security brain whose two
  lists share no domain, every sequence of the operations on the lists (adding to the
  trusted, blocked or one-time list, removing from the trusted or blocked list, clearing
  the one-time list, checking a site) leads to a security brain whose two lists share no
  domain.
\<close>

theorem trusted_blocked_disjoint:
  assumes "trusted_sites sb \<inter> blocked_sites sb = {}"
  shows "trusted_sites (run_sec_ops ops sb) \<inter> blocked_sites (run_sec_ops ops sb) = {}"
  using assms unfolding run_sec_ops_def
proof (induction ops arbitrary: sb)
  case Nil
  then show ?case by simp
next
  case (Cons op ops)
  from Cons.prems have "trusted_sites (apply_sec_op op sb) \<inter> blocked_sites (apply_sec_op op sb) = {}"
    by (rule apply_sec_op_disjoint)
  then show ?case using Cons.IH by simp
qed

theorem trusted_blocked_disjoint_witness:
  "trusted_sites example_security_brain \<inter> blocked_sites example_security_brain = {}
   \<and> trusted_sites (run_sec_ops [AddToBlocked ''github.com'', AddToTrusted ''malicious-site.com'',
                                   AddToOneTime ''github.com''] example_security_brain)
     \<inter> blocked_sites (run_sec_ops [AddToBlocked ''github.com'', AddToTrusted ''malicious-site.com'',
                                    AddToOneTime ''github.com''] example_security_brain) = {}"
proof -
  have h: "trusted_sites example_security_brain \<inter> blocked_sites example_security_brain = {}"
    by (simp add: example_security_brain_def new_security_brain_def)
  from trusted_blocked_disjoint[OF h] h show ?thesis by blast
qed

section \<open>Properties of the decision\<close>

lemma determine_total_decisions [simp]:
  "determine_intent_with_confidence (b\<lparr> total_decisions := n \<rparr>) command
     = determine_intent_with_confidence b command"
  by (simp add: determine_intent_with_confidence_def split: sum.splits)

lemma kb_total_decisions [simp]:
  "intent_config_get (b\<lparr> total_decisions := n \<rparr>) i = intent_config_get b i"
  "possible_actions_of (b\<lparr> total_decisions := n \<rparr>) i = possible_actions_of b i"
  "prefs_of (b\<lparr> total_decisions := n \<rparr>) i = prefs_of b i"
  by (simp_all add: intent_config_get_def possible_actions_of_def prefs_of_def)

lemma select_total_decisions [simp]:
  "select_best_action (b\<lparr> total_decisions := n \<rparr>) i = select_best_action b i"
  by (simp add: select_best_action_def split: option.splits list.splits)

lemma strip_nonempty: "str_strip command \<noteq> [] \<Longrightarrow> command \<noteq> []"
  by (auto simp: str_strip_def)

lemma slice_to_nonneg: "0 \<le> n \<Longrightarrow> slice_to n xs = take (nat n) xs"
  by (simp add: slice_to_def)

lemma fst_decide_action:
  "fst (decide_action b command i conf parameters a) =
     Some (default_result\<lparr> dr_success := True, dr_action := Some a,
             dr_automation_command := Some (map_action_to_automation_enhanced a parameters i),
             dr_parameters := Some parameters, dr_confidence := conf, dr_intent := Some i \<rparr>)"
  by (simp add: decide_action_def Let_def)

lemma make_decision_below_threshold:
  assumes ne: "str_strip command \<noteq> []"
      and det: "determine_intent_with_confidence b command = Inr (best_match # rest)"
      and low: "confidence best_match < confidence_threshold b"
      and nn: "0 \<le> max_alternatives b"
  shows "\<exists>r. fst (make_decision b command) = Some r
           \<and> \<not> dr_success r \<and> dr_clarification_needed r
           \<and> dr_intent r = Some (intent best_match)
           \<and> dr_confidence r = confidence best_match
           \<and> dr_alternatives r = Some (map intent (take (nat (max_alternatives b)) (best_match # rest)))"
  using strip_nonempty[OF ne] ne det low nn
  by (simp add: make_decision_def Let_def default_result_def slice_to_nonneg)

lemma make_decision_single_action:
  assumes ne: "str_strip command \<noteq> []"
      and det: "determine_intent_with_confidence b command = Inr (best_match # rest)"
      and high: "\<not> confidence best_match < confidence_threshold b"
      and acts: "possible_actions_of b (intent best_match) = [a]"
  shows "\<exists>r. fst (make_decision b command) = Some r \<and> dr_success r \<and> dr_action r = Some a
           \<and> \<not> dr_clarification_needed r \<and> dr_intent r = Some (intent best_match)"
  using strip_nonempty[OF ne] ne det high acts
  by (simp add: make_decision_def Let_def fst_decide_action default_result_def)

lemma make_decision_ambiguous:
  assumes ne: "str_strip command \<noteq> []"
      and det: "determine_intent_with_confidence b command = Inr (best_match # rest)"
      and high: "\<not> confidence best_match < confidence_threshold b"
      and cfg: "intent_config_get b (intent best_match) = Some cfg"
      and multi: "length (actions cfg) > 1"
      and ncs: "\<not> context_sensitive cfg"
  shows "\<exists>r. fst (make_decision b command) = Some r \<and> \<not> dr_success r \<and> dr_action r = None
           \<and> dr_clarification_needed r \<and> dr_alternatives r = Some (actions cfg)
           \<and> dr_intent r = Some (intent best_match)"
proof -
  from multi obtain a a' as where as: "actions cfg = a # a' # as"
    by (cases "actions cfg"; cases "tl (actions cfg)") auto
  with cfg have "possible_actions_of b (intent best_match) = a # a' # as"
    by (simp add: possible_actions_of_def)
  with strip_nonempty[OF ne] ne det high cfg ncs as show ?thesis
    by (simp add: make_decision_def Let_def default_result_def)
qed

lemma make_decision_context_sensitive:
  assumes ne: "str_strip command \<noteq> []"
      and det: "determine_intent_with_confidence b command = Inr (best_match # rest)"
      and high: "\<not> confidence best_match < confidence_threshold b"
      and cfg: "intent_config_get b (intent best_match) = Some cfg"
      and multi: "length (actions cfg) > 1"
      and cs: "context_sensitive cfg"
      and pr: "priority cfg = p # ps"
  shows "\<exists>r. fst (make_decision b command) = Some r \<and> dr_success r \<and> \<not> dr_clarification_needed r
           \<and> dr_intent r = Some (intent best_match)
           \<and> dr_action r = Some (case most_common1 (prefs_of b (intent best_match)) of
                                   None \<Rightarrow> p
                                 | Some (most_common_action, n) \<Rightarrow>
                                     if most_common_action \<in> set (actions cfg) then most_common_action else p)"
proof -
  from multi obtain a a' as where as: "actions cfg = a # a' # as"
    by (cases "actions cfg"; cases "tl (actions cfg)") auto
  with cfg have pa: "possible_actions_of b (intent best_match) = a # a' # as"
    by (simp add: possible_actions_of_def)
  have sel: "select_best_action b (intent best_match) =
      Inr (case most_common1 (prefs_of b (intent best_match)) of
             None \<Rightarrow> p
           | Some (most_common_action, n) \<Rightarrow>
               if most_common_action \<in> set (actions cfg) then most_common_action else p)"
    using cfg pr by (simp add: select_best_action_def split: option.splits)
  from strip_nonempty[OF ne] ne det high cfg cs pa sel show ?thesis
    by (simp add: make_decision_def Let_def fst_decide_action default_result_def)
qed

lemma most_common1_None: "most_common1 c = None \<longleftrightarrow> c = []"
  by (cases c) (auto split: option.splits)

lemma most_common1_max:
  "most_common1 c = Some (k, n) \<Longrightarrow> (k, n) \<in> set c \<and> (\<forall>(k', n') \<in> set c. n' \<le> n)"
proof (induction c arbitrary: k n)
  case Nil
  then show ?case by simp
next
  case (Cons x xs)
  show ?case
  proof (cases "most_common1 xs")
    case None
    then have "xs = []" by (simp add: most_common1_None)
    with Cons.prems show ?thesis by auto
  next
    case (Some y)
    obtain k' n' where y: "y = (k', n')" by (cases y)
    from Cons.IH[OF Some[unfolded y]] have ih: "(k', n') \<in> set xs" "\<forall>(k'', n'') \<in> set xs. n'' \<le> n'"
      by auto
    show ?thesis
    proof (cases "snd y > snd x")
      case True
      with Some Cons.prems have "(k, n) = (k', n')" by (simp add: y)
      with ih True y show ?thesis by (cases x) auto
    next
      case False
      with Some Cons.prems have "x = (k, n)" by simp
      with ih False y show ?thesis by fastforce
    qed
  qed
qed

subsection \<open>The resolver on example commands\<close>

lemma determine_with_tables:
  assumes "intent_patterns b = intent_patterns_table"
      and "entity_extractors b = entity_extractors_table"
      and "str_strip (str_lower command) = command_lower"
      and "scan_intents entity_extractors_table command command_lower intent_patterns_table [] = Inr ms"
  shows "determine_intent_with_confidence b command
         = Inr (apply_context_boosting (session_context b) (sort_by_confidence ms))"
  using assms by (simp add: determine_intent_with_confidence_def)

lemma strip_play_something:
  "str_strip ''play something'' = ''play something''"
  "str_strip (str_lower ''play something'') = ''play something''"
  by code_simp+

lemma scan_play_something:
  "scan_intents entity_extractors_table ''play something'' ''play something'' intent_patterns_table []
   = Inr [\<lparr>intent = ''play_music'', confidence = 23 / 70,
          matched_pattern = ''play'', extracted_entities = []\<rparr>]"
  by code_simp

lemma determine_play_something:
  "determine_intent_with_confidence ((new_brain t)\<lparr> session_context := ctx \<rparr>) ''play something''
   = Inr [boost_time (time_of_day ctx) (boost_last_intent (last_intent ctx)
           \<lparr>intent = ''play_music'', confidence = 23 / 70,
            matched_pattern = ''play'', extracted_entities = []\<rparr>)]"
  by (simp add: determine_with_tables[OF _ _ strip_play_something(2) scan_play_something]
      new_brain_def apply_context_boosting_def sort_by_confidence_def)

text \<open>
  The scenario of C6 for every time of day and every last intent: \<open>play something\<close>
  matches only the low tier of \<open>play_music\<close>, scores 23/70 before boosting and at most
  67/140 after, which is below the default threshold 0.7.
\<close>

lemma play_something_any_context:
  "\<exists>r. fst (make_decision ((new_brain t)\<lparr> session_context := ctx \<rparr>) ''play something'') = Some r
       \<and> \<not> dr_success r \<and> dr_clarification_needed r \<and> dr_intent r = Some ''play_music''
       \<and> dr_alternatives r = Some [''play_music'']"
proof -
  let ?b = "(new_brain t)\<lparr> session_context := ctx \<rparr>"
  let ?m = "boost_time (time_of_day ctx) (boost_last_intent (last_intent ctx)
           \<lparr>intent = ''play_music'', confidence = 23 / 70,
            matched_pattern = ''play'', extracted_entities = []\<rparr>)"
  have i: "intent ?m = ''play_music''"
    by (simp add: boost_time_def boost_last_intent_def split: option.splits)
  have c: "confidence ?m < confidence_threshold ?b"
    by (simp add: boost_time_def boost_last_intent_def new_brain_def split: option.splits)
  have n3: "max_alternatives ?b = 3" by (simp add: new_brain_def)
  then have n: "0 \<le> max_alternatives ?b" by simp
  have s: "str_strip ''play something'' \<noteq> []" by (simp add: strip_play_something)
  from make_decision_below_threshold[OF s determine_play_something c n]
  show ?thesis by (auto simp: i n3)
qed

text \<open>
  C6. For every command whose best boosted match is strictly below the confidence
  threshold, \<open>make_decision\<close> returns a result that is not a success, asks for
  clarification, echoes the intent of the best match, and lists as alternatives the
  intents of the first \<open>max_alternatives\<close> matches, so at most that many. The bound
  \<open>max_alternatives\<close> is a count: it is taken to be non-negative (the default is 3).
\<close>

theorem low_confidence_clarification:
  assumes "str_strip command \<noteq> []"
      and "determine_intent_with_confidence b command = Inr (best_match # rest)"
      and "confidence best_match < confidence_threshold b"
      and "0 \<le> max_alternatives b"
  shows "\<exists>r alternatives. fst (make_decision b command) = Some r
           \<and> \<not> dr_success r \<and> dr_clarification_needed r
           \<and> dr_intent r = Some (intent best_match)
           \<and> dr_alternatives r = Some alternatives
           \<and> alternatives = map intent (take (nat (max_alternatives b)) (best_match # rest))
           \<and> int (length alternatives) \<le> max_alternatives b"
proof -
  from make_decision_below_threshold[OF assms] obtain r where
    r: "fst (make_decision b command) = Some r" "\<not> dr_success r" "dr_clarification_needed r"
       "dr_intent r = Some (intent best_match)"
       "dr_alternatives r = Some (map intent (take (nat (max_alternatives b)) (best_match # rest)))"
    by blast
  have "int (length (map intent (take (nat (max_alternatives b)) (best_match # rest)))) \<le> max_alternatives b"
    using assms(4) by simp
  with r show ?thesis by blast
qed

theorem low_confidence_clarification_witness:
  "str_strip ''play something'' \<noteq> []
   \<and> determine_intent_with_confidence (new_brain ''night'') ''play something''
       = Inr [\<lparr>intent = ''play_music'', confidence = 53 / 140,
               matched_pattern = ''play'', extracted_entities = []\<rparr>]
   \<and> (53 / 140 :: rat) < confidence_threshold (new_brain ''night'')
   \<and> 0 \<le> max_alternatives (new_brain ''night'')
   \<and> (\<exists>r. fst (make_decision (new_brain ''night'') ''play something'') = Some r
           \<and> \<not> dr_success r \<and> dr_clarification_needed r
           \<and> dr_intent r = Some ''play_music'' \<and> dr_alternatives r = Some [''play_music''])"
proof -
  let ?m = "\<lparr>intent = ''play_music'', confidence = 53 / 140,
             matched_pattern = ''play'', extracted_entities = []\<rparr>"
  have s: "str_strip ''play something'' \<noteq> []" by (simp add: strip_play_something)
  have "new_brain ''night'' = (new_brain ''night'')\<lparr> session_context := \<lparr> last_intent = None, time_of_day = ''night'' \<rparr> \<rparr>"
    by (simp add: new_brain_def)
  then have d: "determine_intent_with_confidence (new_brain ''night'') ''play something'' = Inr [?m]"
    using determine_play_something[where t = "''night''" and ctx = "\<lparr> last_intent = None, time_of_day = ''night'' \<rparr>"]
    by (simp add: boost_time_def boost_last_intent_def time_boosts_def)
  have c: "confidence ?m < confidence_threshold (new_brain ''night'')" by (simp add: new_brain_def)
  have n3: "max_alternatives (new_brain ''night'') = 3" by (simp add: new_brain_def)
  then have n: "0 \<le> max_alternatives (new_brain ''night'')" by simp
  from low_confidence_clarification[OF s d c n] s d c n show ?thesis
    by (auto simp: n3)
qed

lemma strip_open_notepad:
  "str_strip ''open notepad'' = ''open notepad''"
  "str_strip (str_lower ''open notepad'') = ''open notepad''"
  by code_simp+

lemma scan_open_notepad:
  "scan_intents entity_extractors_table ''open notepad'' ''open notepad'' intent_patterns_table []
   = Inr [\<lparr>intent = ''launch_app'', confidence = 1,
          matched_pattern = re_text [''open'', ''s+(notepad|calculator|paint|word|excel)''],
          extracted_entities = [(''primary_entity'', Some ''notepad'')]\<rparr>]"
  by code_simp

lemma strip_system_status:
  "str_strip ''system status'' = ''system status''"
  "str_strip (str_lower ''system status'') = ''system status''"
  by code_simp+

lemma scan_system_status:
  "scan_intents entity_extractors_table ''system status'' ''system status'' intent_patterns_table []
   = Inr [\<lparr>intent = ''system_check'', confidence = 1,
          matched_pattern = ''system.*status'', extracted_entities = []\<rparr>]"
  by code_simp

lemma strip_what_is_x:
  "str_strip ''what is x'' = ''what is x''"
  "str_strip (str_lower ''what is x'') = ''what is x''"
  by code_simp+

lemma scan_what_is_x:
  "scan_intents entity_extractors_table ''what is x'' ''what is x'' intent_patterns_table []
   = Inr [\<lparr>intent = ''get_info'', confidence = 1,
          matched_pattern = re_text [''what.*is'', ''s+(.+)''],
          extracted_entities = [(''primary_entity'', Some ''x''), (''location'', Some ''is'')]\<rparr>]"
  by code_simp

lemma boost_afternoon_no_last:
  "apply_context_boosting \<lparr> last_intent = None, time_of_day = ''afternoon'' \<rparr> [m] = [m]"
  by (simp add: apply_context_boosting_def sort_by_confidence_def boost_last_intent_def
      boost_time_def time_boosts_def)

lemma determine_open_notepad:
  "determine_intent_with_confidence (new_brain ''afternoon'') ''open notepad''
   = Inr [\<lparr>intent = ''launch_app'', confidence = 1,
          matched_pattern = re_text [''open'', ''s+(notepad|calculator|paint|word|excel)''],
          extracted_entities = [(''primary_entity'', Some ''notepad'')]\<rparr>]"
  by (simp add: determine_with_tables[OF _ _ strip_open_notepad(2) scan_open_notepad]
      new_brain_def boost_afternoon_no_last sort_by_confidence_def)

lemma determine_system_status:
  "determine_intent_with_confidence (new_brain ''afternoon'') ''system status''
   = Inr [\<lparr>intent = ''system_check'', confidence = 1,
          matched_pattern = ''system.*status'', extracted_entities = []\<rparr>]"
  by (simp add: determine_with_tables[OF _ _ strip_system_status(2) scan_system_status]
      new_brain_def boost_afternoon_no_last sort_by_confidence_def)

lemma determine_what_is_x:
  "determine_intent_with_confidence example_brain_with_preferences ''what is x''
   = Inr [\<lparr>intent = ''get_info'', confidence = 1,
          matched_pattern = re_text [''what.*is'', ''s+(.+)''],
          extracted_entities = [(''primary_entity'', Some ''x''), (''location'', Some ''is'')]\<rparr>]"
  by (simp add: determine_with_tables[OF _ _ strip_what_is_x(2) scan_what_is_x]
      example_brain_with_preferences_def new_brain_def boost_afternoon_no_last sort_by_confidence_def)

lemma kb_launch_app:
  "intent_config_get (new_brain t) ''launch_app'' =
     Some \<lparr> actions = [''open_application''], priority = [''open_application''],
            context_sensitive = False, requires_topic = True \<rparr>"
  by (simp add: intent_config_get_def new_brain_def knowledge_base_table_def)

lemma kb_system_check:
  "intent_config_get (new_brain t) ''system_check'' =
     Some \<lparr> actions = [''get_system_status'', ''check_performance''], priority = [''get_system_status''],
            context_sensitive = False, requires_topic = False \<rparr>"
  by (simp add: intent_config_get_def new_brain_def knowledge_base_table_def)

lemma kb_get_info:
  "intent_config_get example_brain_with_preferences ''get_info'' =
     Some \<lparr> actions = [''search_google'', ''search_wikipedia''], priority = [''search_google''],
            context_sensitive = True, requires_topic = True \<rparr>"
  by (simp add: intent_config_get_def example_brain_with_preferences_def new_brain_def
      knowledge_base_table_def)

text \<open>
  C4. When the best match reaches the threshold and the knowledge base has an entry for
  its intent: an entry with exactly one action makes \<open>make_decision\<close> return that action as
  a success, without clarification; an entry with more than one action that is not
  context sensitive makes it return a clarification, not a success, whose alternatives are
  all the actions of the entry.
\<close>

theorem action_selection_single_or_clarify:
  assumes "str_strip command \<noteq> []"
      and "determine_intent_with_confidence b command = Inr (best_match # rest)"
      and "\<not> confidence best_match < confidence_threshold b"
      and "intent_config_get b (intent best_match) = Some cfg"
  shows "(\<forall>a. actions cfg = [a] \<longrightarrow>
            (\<exists>r. fst (make_decision b command) = Some r \<and> dr_success r \<and> dr_action r = Some a
                  \<and> \<not> dr_clarification_needed r))
       \<and> (1 < length (actions cfg) \<and> \<not> context_sensitive cfg \<longrightarrow>
            (\<exists>r. fst (make_decision b command) = Some r \<and> \<not> dr_success r
                  \<and> dr_clarification_needed r \<and> dr_alternatives r = Some (actions cfg)))"
proof (intro conjI allI impI)
  fix a
  assume "actions cfg = [a]"
  with assms(4) have "possible_actions_of b (intent best_match) = [a]"
    by (simp add: possible_actions_of_def)
  from make_decision_single_action[OF assms(1-3) this]
  show "\<exists>r. fst (make_decision b command) = Some r \<and> dr_success r \<and> dr_action r = Some a
             \<and> \<not> dr_clarification_needed r"
    by blast
next
  assume "1 < length (actions cfg) \<and> \<not> context_sensitive cfg"
  then have m: "length (actions cfg) > 1" and n: "\<not> context_sensitive cfg" by simp_all
  from make_decision_ambiguous[OF assms m n]
  show "\<exists>r. fst (make_decision b command) = Some r \<and> \<not> dr_success r
             \<and> dr_clarification_needed r \<and> dr_alternatives r = Some (actions cfg)"
    by blast
qed

theorem action_selection_single_or_clarify_witness:
  "(\<exists>r. fst (make_decision (new_brain ''afternoon'') ''open notepad'') = Some r \<and> dr_success r
         \<and> dr_action r = Some ''open_application'' \<and> \<not> dr_clarification_needed r)
   \<and> (\<exists>r. fst (make_decision (new_brain ''afternoon'') ''system status'') = Some r \<and> \<not> dr_success r
         \<and> dr_clarification_needed r
         \<and> dr_alternatives r = Some [''get_system_status'', ''check_performance''])"
proof -
  have s1: "str_strip ''open notepad'' \<noteq> []" by (simp add: strip_open_notepad)
  have s2: "str_strip ''system status'' \<noteq> []" by (simp add: strip_system_status)
  have h: "\<not> (1::rat) < confidence_threshold (new_brain ''afternoon'')" by (simp add: new_brain_def)
  have 1: "\<exists>r. fst (make_decision (new_brain ''afternoon'') ''open notepad'') = Some r \<and> dr_success r
         \<and> dr_action r = Some ''open_application'' \<and> \<not> dr_clarification_needed r"
    using action_selection_single_or_clarify[OF s1 determine_open_notepad]
    by (simp add: h kb_launch_app)
  have 2: "\<exists>r. fst (make_decision (new_brain ''afternoon'') ''system status'') = Some r \<and> \<not> dr_success r
         \<and> dr_clarification_needed r
         \<and> dr_alternatives r = Some [''get_system_status'', ''check_performance'']"
    using action_selection_single_or_clarify[OF s2 determine_system_status]
    by (simp add: h kb_system_check)
  from 1 2 show ?thesis by blast
qed

text \<open>
  C5. When the best match reaches the threshold and the entry of its intent has more than
  one action and is context sensitive, \<open>make_decision\<close> succeeds with the first element of
  the entry's priority list, unless the learning store has recorded entries for the
  intent and its most frequent one (\<open>most_common1\<close>: a recorded entry whose count no other
  entry exceeds; none exactly when nothing is recorded) is one of the entry's actions:
  then that one is the action. The action is a function of the knowledge base and the
  learning store.
\<close>

theorem context_sensitive_selection:
  assumes "str_strip command \<noteq> []"
      and "determine_intent_with_confidence b command = Inr (best_match # rest)"
      and "\<not> confidence best_match < confidence_threshold b"
      and "intent_config_get b (intent best_match) = Some cfg"
      and "1 < length (actions cfg)"
      and "context_sensitive cfg"
      and "priority cfg = p # ps"
  shows "(\<exists>r. fst (make_decision b command) = Some r \<and> dr_success r
            \<and> dr_action r = Some (case most_common1 (prefs_of b (intent best_match)) of
                                    None \<Rightarrow> p
                                  | Some (most_common_action, n) \<Rightarrow>
                                      if most_common_action \<in> set (actions cfg)
                                      then most_common_action else p))
       \<and> (most_common1 (prefs_of b (intent best_match)) = None
            \<longleftrightarrow> prefs_of b (intent best_match) = [])
       \<and> (\<forall>k n. most_common1 (prefs_of b (intent best_match)) = Some (k, n) \<longrightarrow>
            (k, n) \<in> set (prefs_of b (intent best_match))
            \<and> (\<forall>(k', n') \<in> set (prefs_of b (intent best_match)). n' \<le> n))"
proof (intro conjI allI impI)
  from make_decision_context_sensitive[OF assms]
  show "\<exists>r. fst (make_decision b command) = Some r \<and> dr_success r
            \<and> dr_action r = Some (case most_common1 (prefs_of b (intent best_match)) of
                                    None \<Rightarrow> p
                                  | Some (most_common_action, n) \<Rightarrow>
                                      if most_common_action \<in> set (actions cfg)
                                      then most_common_action else p)"
    by blast
  show "most_common1 (prefs_of b (intent best_match)) = None \<longleftrightarrow> prefs_of b (intent best_match) = []"
    by (rule most_common1_None)
next
  fix k n
  assume "most_common1 (prefs_of b (intent best_match)) = Some (k, n)"
  then have *: "(k, n) \<in> set (prefs_of b (intent best_match))
      \<and> (\<forall>(k', n') \<in> set (prefs_of b (intent best_match)). n' \<le> n)"
    by (rule most_common1_max)
  from * show "(k, n) \<in> set (prefs_of b (intent best_match))" by simp
  from * show "\<forall>(k', n') \<in> set (prefs_of b (intent best_match)). n' \<le> n" by simp
qed

theorem context_sensitive_selection_witness:
  "most_common1 (prefs_of example_brain_with_preferences ''get_info'') = Some (''search_wikipedia'', 2)
   \<and> (''what is y'', 1) \<in> set (prefs_of example_brain_with_preferences ''get_info'')
   \<and> (\<exists>r. fst (make_decision example_brain_with_preferences ''what is x'') = Some r \<and> dr_success r
         \<and> dr_action r = Some ''search_wikipedia'')"
proof -
  have s: "str_strip ''what is x'' \<noteq> []" by (simp add: strip_what_is_x)
  have h: "\<not> (1::rat) < confidence_threshold example_brain_with_preferences"
    by (simp add: example_brain_with_preferences_def new_brain_def)
  have p: "prefs_of example_brain_with_preferences ''get_info''
           = [(''what is y'', 1), (''search_wikipedia'', 2)]"
    by (simp add: prefs_of_def example_brain_with_preferences_def)
  have m: "most_common1 (prefs_of example_brain_with_preferences ''get_info'') = Some (''search_wikipedia'', 2)"
    by (simp add: p)
  from context_sensitive_selection[OF s determine_what_is_x, where cfg = "\<lparr> actions = [''search_google'', ''search_wikipedia''], priority = [''search_google''],
            context_sensitive = True, requires_topic = True \<rparr>" and p = "''search_google''" and ps = "[]"]
  show ?thesis
    by (simp add: h kb_get_info m p)
qed

section \<open>Properties of the resolver's ranking\<close>

lemma scan_intents_bounds:
  "scan_intents ex command cl bank acc = Inr ms \<Longrightarrow>
   \<forall>m\<in>set acc. 0 < confidence m \<and> confidence m \<le> 1 \<Longrightarrow>
   \<forall>m\<in>set ms. 0 < confidence m \<and> confidence m \<le> 1"
proof (induction bank arbitrary: acc)
  case Nil
  then show ?case by simp
next
  case (Cons ip bank)
  obtain i pg where ip: "ip = (i, pg)" by (cases ip)
  from Cons.prems(1) obtain bc bp be where
    lv: "scan_levels ex command cl pg confidence_levels (0, [], []) = Inr (bc, bp, be)"
    and rest: "scan_intents ex command cl bank
            (if bc > 0 then acc @ [\<lparr> intent = i, confidence = min bc 1,
                     matched_pattern = bp, extracted_entities = be \<rparr>] else acc) = Inr ms"
    by (auto simp: ip split: sum.splits)
  show ?case
    by (rule Cons.IH[OF rest]) (use Cons.prems(2) in auto)
qed

lemma scan_intents_order:
  "scan_intents ex command cl bank acc = Inr ms \<Longrightarrow>
   \<exists>new. ms = acc @ new \<and> subseq (map intent new) (map fst bank)"
proof (induction bank arbitrary: acc)
  case Nil
  then show ?case by simp
next
  case (Cons ip bank)
  obtain i pg where ip: "ip = (i, pg)" by (cases ip)
  from Cons.prems(1) obtain bc bp be where
    lv: "scan_levels ex command cl pg confidence_levels (0, [], []) = Inr (bc, bp, be)"
    and rest: "scan_intents ex command cl bank
            (if bc > 0 then acc @ [\<lparr> intent = i, confidence = min bc 1,
                     matched_pattern = bp, extracted_entities = be \<rparr>] else acc) = Inr ms"
    by (auto simp: ip split: sum.splits)
  from Cons.IH[OF rest] obtain new where
    new: "ms = (if bc > 0 then acc @ [\<lparr> intent = i, confidence = min bc 1,
                     matched_pattern = bp, extracted_entities = be \<rparr>] else acc) @ new"
    and sub: "subseq (map intent new) (map fst bank)"
    by blast
  show ?case
  proof (cases "bc > 0")
    case True
    with new sub show ?thesis
      by (intro exI[of _ "\<lparr> intent = i, confidence = min bc 1,
                     matched_pattern = bp, extracted_entities = be \<rparr> # new"]) (simp add: ip)
  next
    case False
    with new sub show ?thesis
      by (intro exI[of _ new]) (simp add: ip list_emb_Cons)
  qed
qed

lemma sorted_sort_by_confidence:
  "sorted_wrt (\<lambda>x y. confidence x \<ge> confidence y) (sort_by_confidence ms)"
proof -
  have "sorted (map (\<lambda>m. - confidence m) (sort_by_confidence ms))"
    unfolding sort_by_confidence_def by (rule sorted_sort_key)
  then show ?thesis by (simp add: sorted_map)
qed

lemma set_sort_by_confidence [simp]: "set (sort_by_confidence ms) = set ms"
  by (simp add: sort_by_confidence_def)

lemma sort_by_confidence_stable:
  "filter (\<lambda>m. confidence m = c) (sort_by_confidence ms) = filter (\<lambda>m. confidence m = c) ms"
proof -
  have "filter (\<lambda>m. - confidence m = - c) (sort_key (\<lambda>m. - confidence m) ms)
        = filter (\<lambda>m. - confidence m = - c) ms"
    by (rule sort_key_stable)
  then show ?thesis by (simp add: sort_by_confidence_def)
qed

lemma boosted_bounds:
  assumes "0 < confidence m \<and> confidence m \<le> 1"
  shows "0 \<le> confidence (boost_time t (boost_last_intent li m))
       \<and> confidence (boost_time t (boost_last_intent li m)) \<le> 1"
proof -
  from assms have a: "confidence m \<le> 1" by simp
  from boost_last_intent_mono[OF a, of li]
  have b: "confidence m \<le> confidence (boost_last_intent li m)" "confidence (boost_last_intent li m) \<le> 1"
    by simp_all
  from boost_time_mono[OF b(2), of t] b assms show ?thesis by linarith
qed

text \<open>
  C8, as the code has it. The output of the resolver is sorted into non-increasing
  confidence and every confidence in it lies between 0 and 1. Both sorts are stable, each
  with respect to the list it is given: the candidates are found in the order of the
  pattern bank, the first sort keeps that order among candidates of equal raw
  confidence, and the second sort keeps, among matches of equal boosted confidence, the
  order of the first ranking (boosted), which need not be the order of the bank.
\<close>

theorem resolver_output_sorted:
  assumes "determine_intent_with_confidence b command = Inr out"
  shows "sorted_wrt (\<lambda>x y. confidence x \<ge> confidence y) out
       \<and> (\<forall>m\<in>set out. 0 \<le> confidence m \<and> confidence m \<le> 1)
       \<and> (\<exists>cands. scan_intents (entity_extractors b) command (str_strip (str_lower command))
                      (intent_patterns b) [] = Inr cands
              \<and> subseq (map intent cands) (map fst (intent_patterns b))
              \<and> (\<forall>c. filter (\<lambda>m. confidence m = c) (sort_by_confidence cands)
                       = filter (\<lambda>m. confidence m = c) cands)
              \<and> (\<forall>c. filter (\<lambda>m. confidence m = c) out
                       = filter (\<lambda>m. confidence m = c)
                           (map (\<lambda>m. boost_time (time_of_day (session_context b))
                                        (boost_last_intent (last_intent (session_context b)) m))
                                (sort_by_confidence cands))))"
proof -
  from assms obtain cands where
    sc: "scan_intents (entity_extractors b) command (str_strip (str_lower command))
           (intent_patterns b) [] = Inr cands"
    and out: "out = apply_context_boosting (session_context b) (sort_by_confidence cands)"
    by (auto simp: determine_intent_with_confidence_def Let_def split: sum.splits)
  let ?f = "\<lambda>m. boost_time (time_of_day (session_context b))
                   (boost_last_intent (last_intent (session_context b)) m)"
  have out': "out = sort_by_confidence (map ?f (sort_by_confidence cands))"
    by (simp add: out apply_context_boosting_def comp_def)
  have 1: "sorted_wrt (\<lambda>x y. confidence x \<ge> confidence y) out"
    unfolding out' by (rule sorted_sort_by_confidence)
  from scan_intents_bounds[OF sc] have cb: "\<forall>m\<in>set cands. 0 < confidence m \<and> confidence m \<le> 1"
    by simp
  have 2: "\<forall>m\<in>set out. 0 \<le> confidence m \<and> confidence m \<le> 1"
    unfolding out' using cb boosted_bounds by auto
  from scan_intents_order[OF sc] have 3: "subseq (map intent cands) (map fst (intent_patterns b))"
    by simp
  have 4: "\<forall>c. filter (\<lambda>m. confidence m = c) (sort_by_confidence cands)
               = filter (\<lambda>m. confidence m = c) cands"
    by (simp add: sort_by_confidence_stable)
  have 5: "\<forall>c. filter (\<lambda>m. confidence m = c) out
               = filter (\<lambda>m. confidence m = c) (map ?f (sort_by_confidence cands))"
    unfolding out' by (simp add: sort_by_confidence_stable)
  from 1 2 sc 3 4 5 show ?thesis by blast
qed

lemma determine_what_is_x_afternoon:
  "determine_intent_with_confidence (new_brain ''afternoon'') ''what is x''
   = Inr [\<lparr>intent = ''get_info'', confidence = 1,
          matched_pattern = re_text [''what.*is'', ''s+(.+)''],
          extracted_entities = [(''primary_entity'', Some ''x''), (''location'', Some ''is'')]\<rparr>]"
  by (simp add: determine_with_tables[OF _ _ strip_what_is_x(2) scan_what_is_x]
      new_brain_def boost_afternoon_no_last sort_by_confidence_def)

lemma brain_after_what_is_x:
  "session_context example_brain_after_what_is_x
     = \<lparr> last_intent = Some ''get_info'', time_of_day = ''afternoon'' \<rparr>"
  "intent_patterns example_brain_after_what_is_x = intent_patterns_table"
  "entity_extractors example_brain_after_what_is_x = entity_extractors_table"
proof -
  have d: "make_decision (new_brain ''afternoon'') ''what is x''
        = decide_action ((new_brain ''afternoon'')\<lparr> total_decisions := 1 \<rparr>) ''what is x'' ''get_info'' 1
            (extract_enhanced_parameters ''what is x''
               \<lparr>intent = ''get_info'', confidence = 1,
                matched_pattern = re_text [''what.*is'', ''s+(.+)''],
                extracted_entities = [(''primary_entity'', Some ''x''), (''location'', Some ''is'')]\<rparr>)
            ''search_google''"
    by (simp add: make_decision_def strip_what_is_x determine_what_is_x_afternoon Let_def)
       (simp add: new_brain_def possible_actions_of_def intent_config_get_def knowledge_base_table_def
          select_best_action_def prefs_of_def)
  show "session_context example_brain_after_what_is_x
     = \<lparr> last_intent = Some ''get_info'', time_of_day = ''afternoon'' \<rparr>"
    unfolding example_brain_after_what_is_x_def d
    by (simp add: decide_action_def Let_def update_conversation_history_def
        learn_from_interaction_def new_brain_def)
  show "intent_patterns example_brain_after_what_is_x = intent_patterns_table"
    unfolding example_brain_after_what_is_x_def d
    by (simp add: decide_action_def Let_def update_conversation_history_def
        learn_from_interaction_def new_brain_def)
  show "entity_extractors example_brain_after_what_is_x = entity_extractors_table"
    unfolding example_brain_after_what_is_x_def d
    by (simp add: decide_action_def Let_def update_conversation_history_def
        learn_from_interaction_def new_brain_def)
qed

lemma strip_call_what_is_x:
  "str_strip (str_lower ''call what is x'') = ''call what is x''"
  by code_simp

lemma scan_call_what_is_x:
  "scan_intents entity_extractors_table ''call what is x'' ''call what is x'' intent_patterns_table []
   = Inr [\<lparr>intent = ''get_info'', confidence = 27 / 28,
          matched_pattern = re_text [''what.*is'', ''s+(.+)''],
          extracted_entities = [(''primary_entity'', Some ''x''), (''person'', Some ''what is''),
                                (''location'', Some ''is'')]\<rparr>,
         \<lparr>intent = ''communication'', confidence = 1,
          matched_pattern = re_text [''call'', ''s+(.+)''],
          extracted_entities = [(''primary_entity'', Some ''what is x''), (''person'', Some ''what is''),
                                (''location'', Some ''is'')]\<rparr>]"
  by code_simp

lemma determine_call_what_is_x:
  "determine_intent_with_confidence example_brain_after_what_is_x ''call what is x''
   = Inr [\<lparr>intent = ''communication'', confidence = 1,
          matched_pattern = re_text [''call'', ''s+(.+)''],
          extracted_entities = [(''primary_entity'', Some ''what is x''), (''person'', Some ''what is''),
                                (''location'', Some ''is'')]\<rparr>,
         \<lparr>intent = ''get_info'', confidence = 1,
          matched_pattern = re_text [''what.*is'', ''s+(.+)''],
          extracted_entities = [(''primary_entity'', Some ''x''), (''person'', Some ''what is''),
                                (''location'', Some ''is'')]\<rparr>]"
  by (simp add: determine_with_tables[OF brain_after_what_is_x(2,3) strip_call_what_is_x scan_call_what_is_x]
      brain_after_what_is_x(1) apply_context_boosting_def sort_by_confidence_def
      boost_last_intent_def boost_time_def time_boosts_def)

lemma bank_order:
  "map fst intent_patterns_table =
     [''find_video'', ''play_music'', ''get_info'', ''open_website'', ''system_check'', ''launch_app'',
      ''search_web'', ''entertainment'', ''work_task'', ''file_management'', ''news_update'',
      ''social_media'', ''learning'', ''productivity'', ''communication'', ''shopping'']"
  by (simp add: intent_patterns_table_def)

theorem resolver_output_sorted_witness:
  "(\<exists>out. determine_intent_with_confidence example_brain_after_what_is_x ''call what is x'' = Inr out
          \<and> map intent out = [''communication'', ''get_info'']
          \<and> sorted_wrt (\<lambda>x y. confidence x \<ge> confidence y) out
          \<and> (\<forall>m\<in>set out. 0 \<le> confidence m \<and> confidence m \<le> 1))"
  using resolver_output_sorted[OF determine_call_what_is_x] determine_call_what_is_x
  by simp

text \<open>
  C8, as the claim states it, fails for the order of ties. After the command
  \<open>what is x\<close> the last intent is \<open>get_info\<close>. The command \<open>call what is x\<close> then matches
  \<open>get_info\<close> (raw 27/28, boosted to 1) and \<open>communication\<close> (1). The two matches have
  equal confidence in the output, \<open>get_info\<close> is met first in the pattern bank, and the
  output lists \<open>communication\<close> first.
\<close>

theorem tie_order_counterexample:
  "map_sum id (map (\<lambda>m. (intent m, confidence m)))
     (determine_intent_with_confidence example_brain_after_what_is_x ''call what is x'')
     = Inr [(''communication'', 1), (''get_info'', 1)]
   \<and> filter (\<lambda>i. i = ''communication'' \<or> i = ''get_info'')
        (map fst (intent_patterns example_brain_after_what_is_x))
     = [''get_info'', ''communication'']"
  by (simp add: determine_call_what_is_x brain_after_what_is_x(2) bank_order)

section \<open>Properties of the security confirmation\<close>

lemma deny_not_grant: "a \<in> set deny_answers \<Longrightarrow> a \<notin> set grant_answers"
  by (auto simp: deny_answers_def grant_answers_def)

lemma handle_security_response_deny:
  assumes q: "pending_security_question s = Some q"
      and sb: "security_brain s = Some sb"
      and no: "str_strip (str_lower answer) \<in> set deny_answers"
  shows "snd (handle_security_response e answer s) =
           (log_call (AddBlocked (extract_domain (sq_url q))) s)
             \<lparr> security_brain := Some (snd (add_to_blocked (extract_domain (sq_url q)) sb)),
               pending_security_question := None \<rparr>"
  using q sb no deny_not_grant[OF no]
  by (simp add: handle_security_response_def Let_def)

lemma handle_security_response_unrecognized:
  assumes q: "pending_security_question s = Some q"
      and u: "str_strip (str_lower answer) \<notin> set grant_answers"
             "str_strip (str_lower answer) \<notin> set deny_answers"
             "str_strip (str_lower answer) \<notin> set once_answers"
      and d: "security_brain s \<noteq> None \<or> netloc_of (''https://'' @ sq_url q) \<noteq> None"
  shows "handle_security_response e answer s = (security_reprompt, s)"
  using q u d
  by (auto simp: handle_security_response_def Let_def split: option.splits)

lemma count_result_fields [simp]:
  "pending_security_question (count_result r s) = pending_security_question s"
  "pending_decision_clarification (count_result r s) = pending_decision_clarification s"
  "security_brain (count_result r s) = security_brain s"
  "decision_brain (count_result r s) = decision_brain s"
  "calls (count_result r s) = calls s"
  by (simp_all add: count_result_def Let_def)

lemma handle_command_security:
  assumes "pending_security_question s = Some q"
  shows "handle_command e answer s =
     (let s1 = s\<lparr> commands_processed := commands_processed s + 1, last_command := Some answer \<rparr>;
          r = success_result (Some (fst (handle_security_response e answer s1))) ''SecurityBrain''
      in (r, count_result r (snd (handle_security_response e answer s1))))"
  using assms by (simp add: handle_command_def Let_def split: prod.splits)

text \<open>
  What \<open>handle_command\<close> does with an answer while a security question is pending and a
  security brain is loaded. An answer that means no clears the pending question, leaves a
  pending clarification as it was, and causes exactly one call, \<open>add_to_blocked\<close> with the
  domain of the pending URL, so no website is opened; \<open>add_to_blocked\<close> cleans the domain
  it is given once more, puts the result into the blocked list and takes it out of the
  other two when it is well formed, and changes nothing when it is not. An answer that
  is none of the recognised ones leaves the pending question and the security brain
  unchanged, causes no call, and the reply is the request to answer again.
\<close>

lemma security_answer_handling:
  assumes q: "pending_security_question s = Some q"
      and sb: "security_brain s = Some sb"
  shows "(str_strip (str_lower answer) \<in> set deny_answers \<longrightarrow>
            pending_security_question (snd (handle_command e answer s)) = None
            \<and> pending_decision_clarification (snd (handle_command e answer s))
                = pending_decision_clarification s
            \<and> calls (snd (handle_command e answer s)) = calls s @ [AddBlocked (extract_domain (sq_url q))]
            \<and> security_brain (snd (handle_command e answer s))
                = Some (snd (add_to_blocked (extract_domain (sq_url q)) sb))
            \<and> (is_valid_domain (extract_domain (extract_domain (sq_url q))) \<longrightarrow>
                 blocked_sites (snd (add_to_blocked (extract_domain (sq_url q)) sb))
                   = insert (extract_domain (extract_domain (sq_url q))) (blocked_sites sb)
                 \<and> extract_domain (extract_domain (sq_url q))
                     \<notin> trusted_sites (snd (add_to_blocked (extract_domain (sq_url q)) sb))
                 \<and> extract_domain (extract_domain (sq_url q))
                     \<notin> one_time_sessions (snd (add_to_blocked (extract_domain (sq_url q)) sb)))
            \<and> (\<not> is_valid_domain (extract_domain (extract_domain (sq_url q))) \<longrightarrow>
                 snd (add_to_blocked (extract_domain (sq_url q)) sb) = sb))
       \<and> (str_strip (str_lower answer) \<notin> set grant_answers
          \<and> str_strip (str_lower answer) \<notin> set deny_answers
          \<and> str_strip (str_lower answer) \<notin> set once_answers \<longrightarrow>
            pending_security_question (snd (handle_command e answer s)) = Some q
            \<and> pending_decision_clarification (snd (handle_command e answer s))
                = pending_decision_clarification s
            \<and> security_brain (snd (handle_command e answer s)) = Some sb
            \<and> calls (snd (handle_command e answer s)) = calls s
            \<and> cr_response (fst (handle_command e answer s)) = Some security_reprompt)"
proof (intro conjI impI)
  let ?s1 = "s\<lparr> commands_processed := commands_processed s + 1, last_command := Some answer \<rparr>"
  have q1: "pending_security_question ?s1 = Some q" and sb1: "security_brain ?s1 = Some sb"
    using q sb by simp_all
  {
    assume no: "str_strip (str_lower answer) \<in> set deny_answers"
    note r = handle_security_response_deny[OF q1 sb1 no, of e, simplified]
    show "pending_security_question (snd (handle_command e answer s)) = None"
      by (simp add: handle_command_security[OF q] Let_def r)
    show "pending_decision_clarification (snd (handle_command e answer s))
          = pending_decision_clarification s"
      by (simp add: handle_command_security[OF q] Let_def r log_call_def)
    show "calls (snd (handle_command e answer s)) = calls s @ [AddBlocked (extract_domain (sq_url q))]"
      by (simp add: handle_command_security[OF q] Let_def r log_call_def)
    show "security_brain (snd (handle_command e answer s))
          = Some (snd (add_to_blocked (extract_domain (sq_url q)) sb))"
      by (simp add: handle_command_security[OF q] Let_def r)
  }
  {
    assume "str_strip (str_lower answer) \<notin> set grant_answers
          \<and> str_strip (str_lower answer) \<notin> set deny_answers
          \<and> str_strip (str_lower answer) \<notin> set once_answers"
    then have u: "str_strip (str_lower answer) \<notin> set grant_answers"
             "str_strip (str_lower answer) \<notin> set deny_answers"
             "str_strip (str_lower answer) \<notin> set once_answers" by simp_all
    have d: "security_brain ?s1 \<noteq> None \<or> netloc_of (''https://'' @ sq_url q) \<noteq> None"
      using sb1 by simp
    note r = handle_security_response_unrecognized[OF q1 u d, of e, simplified]
    show "pending_security_question (snd (handle_command e answer s)) = Some q"
      by (simp add: handle_command_security[OF q] Let_def r q)
    show "pending_decision_clarification (snd (handle_command e answer s))
          = pending_decision_clarification s"
      by (simp add: handle_command_security[OF q] Let_def r)
    show "security_brain (snd (handle_command e answer s)) = Some sb"
      by (simp add: handle_command_security[OF q] Let_def r sb)
    show "calls (snd (handle_command e answer s)) = calls s"
      by (simp add: handle_command_security[OF q] Let_def r)
    show "cr_response (fst (handle_command e answer s)) = Some security_reprompt"
      by (simp add: handle_command_security[OF q] Let_def r success_result_def)
  }
  {
    assume v: "is_valid_domain (extract_domain (extract_domain (sq_url q)))"
    then show "blocked_sites (snd (add_to_blocked (extract_domain (sq_url q)) sb))
                   = insert (extract_domain (extract_domain (sq_url q))) (blocked_sites sb)"
      by (simp add: add_to_blocked_def Let_def)
    from v show "extract_domain (extract_domain (sq_url q))
                     \<notin> trusted_sites (snd (add_to_blocked (extract_domain (sq_url q)) sb))"
      by (simp add: add_to_blocked_def Let_def)
    from v show "extract_domain (extract_domain (sq_url q))
                     \<notin> one_time_sessions (snd (add_to_blocked (extract_domain (sq_url q)) sb))"
      by (simp add: add_to_blocked_def Let_def)
  }
  {
    assume "\<not> is_valid_domain (extract_domain (extract_domain (sq_url q)))"
    then show "snd (add_to_blocked (extract_domain (sq_url q)) sb) = sb"
      by (simp add: add_to_blocked_def Let_def)
  }
qed

lemma ask_user_prefix:
  "startswith ''ASK_USER:This is a new site. How should I proceed?'' ''ASK_USER:''"
  by simp

lemma pending_after_open:
  "pending_security_question (snd (handle_command example_env command example_cns))
     = Some \<lparr> sq_question = ''ASK_USER:This is a new site. How should I proceed?'',
              sq_url = extract_url_from_original_command command,
              sq_original_command = command \<rparr>"
  "security_brain (snd (handle_command example_env command example_cns))
     = Some (new_security_brain [] [] [])"
  by (simp_all add: handle_command_def example_cns_def new_cns_def process_command_enhanced_def
      try_response_brain_def try_automation_brain_def example_env_def Let_def truthy_def
      handle_security_question_def log_call_def ask_user_prefix split: prod.splits)

subsection \<open>Denying \<open>www.www.example.com\<close>\<close>

lemma decision_go_to_www:
  "map_option dr_automation_command
     (fst (make_decision (new_brain ''afternoon'') ''go to www.www.example.com''))
   = Some (Some ''open www.www.example.com'')"
  by code_simp

lemma url_of_go_to_www:
  "extract_url_from_original_command ''go to www.www.example.com'' = ''www.www.example.com''"
  by code_simp

lemma domains_of_www:
  "str_strip ''www.www.example.com'' = ''www.www.example.com''"
  "extract_domain ''www.www.example.com'' = ''www.example.com''"
  "extract_domain ''www.example.com'' = ''example.com''"
  "is_valid_domain ''www.example.com''"
  "is_valid_domain ''example.com''"
  by code_simp+

lemma answer_no: "str_strip (str_lower ''no'') = ''no''"
  by code_simp

lemma check_www_asks:
  assumes "''www.example.com'' \<notin> blocked_sites sb" "''www.example.com'' \<notin> trusted_sites sb"
          "''www.example.com'' \<notin> one_time_sessions sb"
  shows "fst (check_website_access ''www.www.example.com'' sb)
         = ASK_USER (''This is a new site ('' @ [CHR 0x27] @ ''www.example.com'' @ [CHR 0x27]
                     @ ''). How should I proceed? (Options: Yes, No, This time only)'')"
  using assms by (simp add: check_website_access_def Let_def domains_of_www)

lemma pending_www:
  "pending_security_question example_cns_pending_www
     = Some \<lparr> sq_question = ''ASK_USER:This is a new site ('' @ [CHR 0x27] @ ''www.example.com'' @ [CHR 0x27]
                     @ ''). How should I proceed? (Options: Yes, No, This time only)'',
              sq_url = ''www.www.example.com'',
              sq_original_command = ''go to www.www.example.com'' \<rparr>"
  "security_brain example_cns_pending_www = Some example_security_brain"
  "calls example_cns_pending_www = []"
proof -
  have c: "fst (check_website_access ''www.www.example.com'' example_security_brain)
         = ASK_USER (''This is a new site ('' @ [CHR 0x27] @ ''www.example.com'' @ [CHR 0x27]
                     @ ''). How should I proceed? (Options: Yes, No, This time only)'')"
    by (rule check_www_asks) (simp_all add: example_security_brain_def new_security_brain_def)
  show "pending_security_question example_cns_pending_www
     = Some \<lparr> sq_question = ''ASK_USER:This is a new site ('' @ [CHR 0x27] @ ''www.example.com'' @ [CHR 0x27]
                     @ ''). How should I proceed? (Options: Yes, No, This time only)'',
              sq_url = ''www.www.example.com'',
              sq_original_command = ''go to www.www.example.com'' \<rparr>"
    by (simp add: example_cns_pending_www_def handle_security_question_def Let_def c url_of_go_to_www)
  show "security_brain example_cns_pending_www = Some example_security_brain"
    by (simp add: example_cns_pending_www_def handle_security_question_def Let_def
        example_cns_www_def new_cns_def)
  show "calls example_cns_pending_www = []"
    by (simp add: example_cns_pending_www_def handle_security_question_def Let_def
        example_cns_www_def new_cns_def)
qed

text \<open>
  C7. While a security confirmation is pending, the answer \<open>no\<close> should add the denied
  domain to the blocklist, clear the pending interrupt and open no website. On the code
  the first part fails. The command \<open>go to www.www.example.com\<close> is decided as
  \<open>open www.www.example.com\<close>; for that URL \<open>check_website_access\<close> asks about the domain
  \<open>www.example.com\<close>, and the question is pending with the URL \<open>www.www.example.com\<close>.
  The answer \<open>no\<close> clears the question and causes one call,
  \<open>add_to_blocked\<close> with \<open>www.example.com\<close>, and the reply says that \<open>www.example.com\<close> is
  now on the blocklist and will be denied in the future. But \<open>add_to_blocked\<close> cleans the
  domain a second time and records \<open>example.com\<close>: the denied domain is not in the blocked
  list, and \<open>check_website_access\<close> asks about the same URL again instead of denying it.
  This holds whatever the automation and response brains are.
\<close>

theorem deny_records_another_domain:
  "map_option dr_automation_command
     (fst (make_decision (new_brain ''afternoon'') ''go to www.www.example.com''))
     = Some (Some ''open www.www.example.com'')
   \<and> fst (check_website_access ''www.www.example.com'' example_security_brain)
       = ASK_USER (''This is a new site ('' @ [CHR 0x27] @ ''www.example.com'' @ [CHR 0x27]
                   @ ''). How should I proceed? (Options: Yes, No, This time only)'')
   \<and> map_option sq_url (pending_security_question example_cns_pending_www)
       = Some ''www.www.example.com''
   \<and> pending_security_question (snd (handle_command e ''no'' example_cns_pending_www)) = None
   \<and> calls (snd (handle_command e ''no'' example_cns_pending_www)) = [AddBlocked ''www.example.com'']
   \<and> cr_response (fst (handle_command e ''no'' example_cns_pending_www))
       = Some (''Got it, Boss. I'' @ [CHR 0x27] @ ''ve added '' @ [CHR 0x27] @ ''www.example.com''
               @ [CHR 0x27] @ '' to the blocklist. Access will be denied in the future.'')
   \<and> map_option blocked_sites (security_brain (snd (handle_command e ''no'' example_cns_pending_www)))
       = Some {''malicious-site.com'', ''example.com''}
   \<and> map_option (\<lambda>sb. fst (check_website_access ''www.www.example.com'' sb))
        (security_brain (snd (handle_command e ''no'' example_cns_pending_www)))
       = Some (ASK_USER (''This is a new site ('' @ [CHR 0x27] @ ''www.example.com'' @ [CHR 0x27]
                         @ ''). How should I proceed? (Options: Yes, No, This time only)''))"
proof -
  let ?s1 = "example_cns_pending_www\<lparr> commands_processed := commands_processed example_cns_pending_www + 1,
                                     last_command := Some ''no'' \<rparr>"
  let ?sb = "snd (add_to_blocked ''www.example.com'' example_security_brain)"
  have q1: "pending_security_question ?s1 = pending_security_question example_cns_pending_www"
    and sb1: "security_brain ?s1 = Some example_security_brain"
    by (simp_all add: pending_www)
  have no: "str_strip (str_lower ''no'') \<in> set deny_answers"
    by (simp add: answer_no deny_answers_def)
  have "handle_security_response e ''no'' ?s1 =
      (''Got it, Boss. I'' @ [CHR 0x27] @ ''ve added '' @ [CHR 0x27] @ ''www.example.com''
         @ [CHR 0x27] @ '' to the blocklist. Access will be denied in the future.'',
       (log_call (AddBlocked ''www.example.com'') ?s1)
         \<lparr> security_brain := Some ?sb, pending_security_question := None \<rparr>)"
    using no deny_not_grant[OF no]
    by (simp add: handle_security_response_def Let_def pending_www domains_of_www)
  note r = this[simplified]
  have b: "blocked_sites ?sb = {''malicious-site.com'', ''example.com''}"
    "trusted_sites ?sb = {''github.com'', ''stackoverflow.com''}"
    "one_time_sessions ?sb = {''temp-site.com''}"
    by (auto simp: add_to_blocked_def Let_def domains_of_www example_security_brain_def
        new_security_brain_def)
  have again: "fst (check_website_access ''www.www.example.com'' ?sb)
       = ASK_USER (''This is a new site ('' @ [CHR 0x27] @ ''www.example.com'' @ [CHR 0x27]
                   @ ''). How should I proceed? (Options: Yes, No, This time only)'')"
    by (rule check_www_asks) (simp_all add: b)
  have first: "fst (check_website_access ''www.www.example.com'' example_security_brain)
       = ASK_USER (''This is a new site ('' @ [CHR 0x27] @ ''www.example.com'' @ [CHR 0x27]
                   @ ''). How should I proceed? (Options: Yes, No, This time only)'')"
    by (rule check_www_asks) (simp_all add: example_security_brain_def new_security_brain_def)
  have 1: "pending_security_question (snd (handle_command e ''no'' example_cns_pending_www)) = None"
    by (simp add: handle_command_security[OF pending_www(1)] Let_def r)
  have 2: "calls (snd (handle_command e ''no'' example_cns_pending_www)) = [AddBlocked ''www.example.com'']"
    by (simp add: handle_command_security[OF pending_www(1)] Let_def r log_call_def pending_www)
  have 3: "cr_response (fst (handle_command e ''no'' example_cns_pending_www))
       = Some (''Got it, Boss. I'' @ [CHR 0x27] @ ''ve added '' @ [CHR 0x27] @ ''www.example.com''
               @ [CHR 0x27] @ '' to the blocklist. Access will be denied in the future.'')"
    by (simp add: handle_command_security[OF pending_www(1)] Let_def r success_result_def)
  have 4: "security_brain (snd (handle_command e ''no'' example_cns_pending_www)) = Some ?sb"
    by (simp add: handle_command_security[OF pending_www(1)] Let_def r)
  from decision_go_to_www first 1 2 3 show ?thesis
    by (simp add: 4 b again pending_www)
qed

section \<open>Properties of the pending interrupts\<close>

lemma extends_calls_refl [simp]: "extends_calls P s s"
  by (simp add: extends_calls_def)

lemma extends_calls_trans:
  "extends_calls P s s' \<Longrightarrow> extends_calls P s' s'' \<Longrightarrow> extends_calls P s s''"
  by (auto simp: extends_calls_def)

lemma extends_calls_log: "P c \<Longrightarrow> extends_calls P s (log_call c s)"
  by (simp add: extends_calls_def log_call_def)

lemma extends_calls_same: "calls s' = calls s \<Longrightarrow> extends_calls P s s'"
  by (simp add: extends_calls_def)

lemma extends_calls_new_calls:
  "extends_calls P s s' \<Longrightarrow> \<forall>x\<in>set (new_calls s s'). P x"
  by (auto simp: extends_calls_def new_calls_def)

lemma not_resolution_unflagged: "not_resolution c \<Longrightarrow> unflagged c"
  by (cases c) (simp_all add: not_resolution_def unflagged_def)

lemma extends_calls_mono: "(\<And>c. P c \<Longrightarrow> Q c) \<Longrightarrow> extends_calls P s s' \<Longrightarrow> extends_calls Q s s'"
  by (auto simp: extends_calls_def)

lemma handle_security_question_props:
  "pending_security_question (snd (handle_security_question r c s)) \<noteq> None"
  "pending_decision_clarification (snd (handle_security_question r c s)) = pending_decision_clarification s"
  "calls (snd (handle_security_question r c s)) = calls s"
  "decision_brain (snd (handle_security_question r c s)) = decision_brain s"
  by (simp_all add: handle_security_question_def Let_def)

lemma try_automation_brain_props:
  "pending_decision_clarification (snd (try_automation_brain e c s)) = pending_decision_clarification s"
  "extends_calls not_resolution s (snd (try_automation_brain e c s))"
  by (auto simp: try_automation_brain_def Let_def handle_security_question_props
      extends_calls_def log_call_def not_resolution_def
      split: option.splits outcome.splits)

lemma try_response_brain_props:
  "pending_decision_clarification (snd (try_response_brain e c s)) = pending_decision_clarification s"
  "extends_calls not_resolution s (snd (try_response_brain e c s))"
proof -
  show "pending_decision_clarification (snd (try_response_brain e c s)) = pending_decision_clarification s"
    by (auto simp: try_response_brain_def Let_def try_automation_brain_props(1) log_call_def
        split: option.splits outcome.splits)
  have l: "extends_calls not_resolution s (log_call (ProcessCommand c) s)"
    by (rule extends_calls_log) (simp add: not_resolution_def)
  show "extends_calls not_resolution s (snd (try_response_brain e c s))"
    by (auto simp: try_response_brain_def Let_def try_automation_brain_props(2)
        intro: l extends_calls_trans[OF l try_automation_brain_props(2)]
        split: option.splits outcome.splits)
qed

lemma process_command_enhanced_cases:
  assumes "decision_brain s = Some b"
      and "s1 = (log_call (MakeDecision c (interrupt_pending s)) s)\<lparr> decision_brain := Some (snd (make_decision b c)) \<rparr>"
  shows "\<exists>x r d. snd (process_command_enhanced e c s) = snd (try_response_brain e c s1)
              \<or> snd (process_command_enhanced e c s) = snd (try_response_brain e c (log_call (ExecuteCommand x) s1))
              \<or> snd (process_command_enhanced e c s) = snd (handle_security_question r c (log_call (ExecuteCommand x) s1))
              \<or> snd (process_command_enhanced e c s) = log_call (ExecuteCommand x) s1
              \<or> snd (process_command_enhanced e c s) = s1\<lparr> pending_decision_clarification := Some d \<rparr>"
  using assms
  by (simp add: process_command_enhanced_def Let_def split: option.splits prod.splits outcome.splits)
     blast+

lemma process_command_enhanced_props:
  assumes "pending_security_question s = None" "pending_decision_clarification s = None"
  shows "at_most_one_pending (snd (process_command_enhanced e c s))"
    and "extends_calls unflagged s (snd (process_command_enhanced e c s))"
proof -
  have np: "\<not> interrupt_pending s" using assms by (simp add: interrupt_pending_def)
  have trb: "at_most_one_pending (snd (try_response_brain e c t)) \<and> extends_calls unflagged s (snd (try_response_brain e c t))"
    if "pending_decision_clarification t = None" "extends_calls unflagged s t" for t
  proof -
    have "pending_decision_clarification (snd (try_response_brain e c t)) = None"
      using that(1) by (simp add: try_response_brain_props(1))
    moreover have "extends_calls unflagged t (snd (try_response_brain e c t))"
      by (rule extends_calls_mono[OF not_resolution_unflagged try_response_brain_props(2)])
    ultimately show ?thesis
      using that(2) by (auto simp: at_most_one_pending_def intro: extends_calls_trans)
  qed
  show "at_most_one_pending (snd (process_command_enhanced e c s))
        " "extends_calls unflagged s (snd (process_command_enhanced e c s))"
  proof (atomize (full), cases "decision_brain s")
    case None
    then have "snd (process_command_enhanced e c s) = snd (try_response_brain e c s)"
      by (simp add: process_command_enhanced_def)
    with trb[of s] assms show "at_most_one_pending (snd (process_command_enhanced e c s))
        \<and> extends_calls unflagged s (snd (process_command_enhanced e c s))" by simp
  next
    case (Some b)
    define s1 where "s1 = (log_call (MakeDecision c (interrupt_pending s)) s)\<lparr> decision_brain := Some (snd (make_decision b c)) \<rparr>"
    have s1: "pending_security_question s1 = None" "pending_decision_clarification s1 = None"
      "extends_calls unflagged s s1"
      using assms np by (simp_all add: s1_def log_call_def extends_calls_def unflagged_def)
    have s2: "pending_security_question (log_call (ExecuteCommand x) s1) = None"
      "pending_decision_clarification (log_call (ExecuteCommand x) s1) = None"
      "extends_calls unflagged s (log_call (ExecuteCommand x) s1)" for x
    proof -
      have "extends_calls unflagged s1 (log_call (ExecuteCommand x) s1)"
        by (rule extends_calls_log) (simp add: unflagged_def)
      with s1 show "pending_security_question (log_call (ExecuteCommand x) s1) = None"
      "pending_decision_clarification (log_call (ExecuteCommand x) s1) = None"
      "extends_calls unflagged s (log_call (ExecuteCommand x) s1)"
        by (auto simp: log_call_def intro: extends_calls_trans)
    qed
    from process_command_enhanced_cases[OF Some s1_def, of e] obtain x r d where
      "snd (process_command_enhanced e c s) = snd (try_response_brain e c s1)
       \<or> snd (process_command_enhanced e c s) = snd (try_response_brain e c (log_call (ExecuteCommand x) s1))
       \<or> snd (process_command_enhanced e c s) = snd (handle_security_question r c (log_call (ExecuteCommand x) s1))
       \<or> snd (process_command_enhanced e c s) = log_call (ExecuteCommand x) s1
       \<or> snd (process_command_enhanced e c s) = s1\<lparr> pending_decision_clarification := Some d \<rparr>"
      by blast
    then consider
        (a) "snd (process_command_enhanced e c s) = snd (try_response_brain e c s1)"
      | (b) "snd (process_command_enhanced e c s) = snd (try_response_brain e c (log_call (ExecuteCommand x) s1))"
      | (c) "snd (process_command_enhanced e c s) = snd (handle_security_question r c (log_call (ExecuteCommand x) s1))"
      | (d) "snd (process_command_enhanced e c s) = log_call (ExecuteCommand x) s1"
      | (e) "snd (process_command_enhanced e c s) = s1\<lparr> pending_decision_clarification := Some d \<rparr>"
      by blast
    then show "at_most_one_pending (snd (process_command_enhanced e c s))
        \<and> extends_calls unflagged s (snd (process_command_enhanced e c s))"
    proof cases
      case a
      with trb[OF s1(2,3)] show ?thesis by simp
    next
      case b
      with trb[OF s2(2,3)] show ?thesis by simp
    next
      case c
      have "extends_calls unflagged s (snd (handle_security_question r c (log_call (ExecuteCommand x) s1)))"
        using s2(3)[of x] by (simp add: extends_calls_def handle_security_question_props)
      then show ?thesis
        using s2(2)[of x] by (simp add: c at_most_one_pending_def handle_security_question_props)
    next
      case d
      with s2[of x] show ?thesis by (simp add: at_most_one_pending_def)
    next
      case e
      with s1 show ?thesis by (simp add: at_most_one_pending_def extends_calls_def)
    qed
  qed
qed

lemma handle_decision_clarification_outcomes:
  assumes c: "pending_decision_clarification s = Some ctx"
      and s0: "s0 = s\<lparr> pending_decision_clarification := None \<rparr>"
      and s1: "s1 = log_call (HandleClarificationResponse (cc_original_command ctx) u) s0"
      and retry: "retry = cc_original_command ctx @ '' '' @ u"
  shows "\<exists>t d. ((decision_brain s = None \<and> t = s0) \<or> t = s1 \<or> (\<exists>b. t = s1\<lparr> decision_brain := Some b \<rparr>)
               \<or> (\<exists>b x. t = log_call (ExecuteCommand x) (s1\<lparr> decision_brain := Some b \<rparr>)))
           \<and> (snd (handle_decision_clarification e u s) = t
               \<or> snd (handle_decision_clarification e u s) = snd (process_command_enhanced e retry t)
               \<or> snd (handle_decision_clarification e u s) = t\<lparr> pending_decision_clarification := Some d \<rparr>)"
proof (cases "decision_brain s")
  case None
  then have "snd (handle_decision_clarification e u s) = snd (process_command_enhanced e retry s0)"
    using c by (simp add: handle_decision_clarification_def Let_def s0 retry)
  with None show ?thesis by blast
next
  case (Some b)
  show ?thesis
  proof (cases "handle_clarification_response b (cc_original_command ctx) u")
    case (Inl err)
    then have "snd (handle_decision_clarification e u s) = s1"
      using c Some by (simp add: handle_decision_clarification_def Let_def s0 s1)
    then show ?thesis by blast
  next
    case (Inr p)
    obtain ro b' where p: "p = (ro, b')" by (cases p)
    let ?s2 = "s1\<lparr> decision_brain := Some b' \<rparr>"
    show ?thesis
    proof (cases ro)
      case None
      then have "snd (handle_decision_clarification e u s) = snd (process_command_enhanced e retry ?s2)"
        using c Some Inr p by (simp add: handle_decision_clarification_def Let_def s0 s1 retry)
      then show ?thesis by blast
    next
      case (Some result)
      let ?s3 = "log_call (ExecuteCommand (the (dr_automation_command result))) ?s2"
      have "snd (handle_decision_clarification e u s) = ?s3
          \<or> snd (handle_decision_clarification e u s) = snd (process_command_enhanced e retry ?s3)
          \<or> snd (handle_decision_clarification e u s) = snd (process_command_enhanced e retry ?s2)
          \<or> snd (handle_decision_clarification e u s)
              = ?s2\<lparr> pending_decision_clarification :=
                      Some \<lparr> cc_original_command = cc_original_command ctx, cc_decision_result = result \<rparr> \<rparr>"
        using c \<open>decision_brain s = Some b\<close> Inr p Some
        by (simp add: handle_decision_clarification_def Let_def s0 s1 retry
            split: option.splits outcome.splits)
      then show ?thesis by blast
    qed
  qed
qed

lemma handle_decision_clarification_props:
  assumes q: "pending_security_question s = None"
      and c: "pending_decision_clarification s = Some ctx"
  shows "at_most_one_pending (snd (handle_decision_clarification e u s))"
    and "extends_calls unflagged s (snd (handle_decision_clarification e u s))"
    and "decision_brain s \<noteq> None \<Longrightarrow>
         \<exists>rest. calls (snd (handle_decision_clarification e u s))
                = calls s @ HandleClarificationResponse (cc_original_command ctx) u # rest"
proof -
  define s0 where "s0 = s\<lparr> pending_decision_clarification := None \<rparr>"
  define s1 where "s1 = log_call (HandleClarificationResponse (cc_original_command ctx) u) s0"
  define retry where "retry = cc_original_command ctx @ '' '' @ u"
  let ?r = "snd (handle_decision_clarification e u s)"
  from handle_decision_clarification_outcomes[OF c s0_def s1_def retry_def, of e]
  obtain t d where
    t: "(decision_brain s = None \<and> t = s0) \<or> t = s1 \<or> (\<exists>b. t = s1\<lparr> decision_brain := Some b \<rparr>)
        \<or> (\<exists>b x. t = log_call (ExecuteCommand x) (s1\<lparr> decision_brain := Some b \<rparr>))"
    and r: "?r = t \<or> ?r = snd (process_command_enhanced e retry t)
            \<or> ?r = t\<lparr> pending_decision_clarification := Some d \<rparr>"
    by blast
  from t have tq: "pending_security_question t = None" and tc: "pending_decision_clarification t = None"
    using q by (auto simp: s0_def s1_def log_call_def)
  from t have te: "extends_calls unflagged s t"
    by (auto simp: s0_def s1_def log_call_def extends_calls_def unflagged_def)
  from t have th: "decision_brain s \<noteq> None \<Longrightarrow>
      \<exists>rest. calls t = calls s @ HandleClarificationResponse (cc_original_command ctx) u # rest"
    by (auto simp: s0_def s1_def log_call_def)
  note p = process_command_enhanced_props[OF tq tc, of e retry]
  from r show "at_most_one_pending ?r"
    using p(1) tq tc by (auto simp: at_most_one_pending_def)
  from r show "extends_calls unflagged s ?r"
    using extends_calls_trans[OF te p(2)] te by (auto simp: extends_calls_def)
  show "\<exists>rest. calls ?r = calls s @ HandleClarificationResponse (cc_original_command ctx) u # rest"
    if "decision_brain s \<noteq> None"
  proof -
    from th[OF that] obtain rest where rest: "calls t = calls s @ HandleClarificationResponse (cc_original_command ctx) u # rest"
      by blast
    from p(2) obtain new where "calls (snd (process_command_enhanced e retry t)) = calls t @ new"
      by (auto simp: extends_calls_def)
    with r rest show ?thesis by auto
  qed
qed

lemma open_after_grant_props:
  "pending_decision_clarification (snd (open_after_grant e url msg s)) = pending_decision_clarification s"
  "pending_security_question (snd (open_after_grant e url msg s)) = None"
  "extends_calls not_resolution s (snd (open_after_grant e url msg s))"
  by (auto simp: open_after_grant_def Let_def log_call_def extends_calls_def not_resolution_def
      split: option.splits outcome.splits)

lemma not_resolution_simps [simp]:
  "not_resolution (AddTrusted d)" "not_resolution (AddBlocked d)" "not_resolution (AddOneTime d)"
  "not_resolution (OpenWebsite d)" "not_resolution (ExecuteCommand d)" "not_resolution (ProcessCommand d)"
  "\<not> not_resolution (MakeDecision d p)" "\<not> not_resolution (HandleClarificationResponse d d')"
  by (simp_all add: not_resolution_def)

lemma handle_security_response_outcomes:
  "\<exists>t url msg. (t = s \<or> (\<exists>c x. not_resolution c \<and> t = (log_call c s)\<lparr> security_brain := x \<rparr>))
      \<and> (snd (handle_security_response e a s) = snd (open_after_grant e url msg t)
          \<or> snd (handle_security_response e a s) = t\<lparr> pending_security_question := None \<rparr>
          \<or> snd (handle_security_response e a s) = s)"
proof (cases "pending_security_question s")
  case None
  then have "snd (handle_security_response e a s) = s"
    by (simp add: handle_security_response_def Let_def)
  then show ?thesis by blast
next
  case (Some q)
  show ?thesis
  proof (cases "security_brain s")
    case None
    have "(\<exists>url msg. snd (handle_security_response e a s) = snd (open_after_grant e url msg s))
          \<or> snd (handle_security_response e a s) = s\<lparr> pending_security_question := None \<rparr>
          \<or> snd (handle_security_response e a s) = s"
      using Some None
      by (simp add: handle_security_response_def Let_def split: option.splits) blast
    then show ?thesis by blast
  next
    case (Some sb)
    have "(\<exists>url msg c x. not_resolution c
              \<and> snd (handle_security_response e a s)
                  = snd (open_after_grant e url msg ((log_call c s)\<lparr> security_brain := x \<rparr>)))
          \<or> (\<exists>c x. not_resolution c
              \<and> snd (handle_security_response e a s)
                  = (log_call c s)\<lparr> security_brain := x, pending_security_question := None \<rparr>)
          \<or> snd (handle_security_response e a s) = s"
    proof -
      let ?a = "str_strip (str_lower a)"
      let ?d = "extract_domain (sq_url q)"
      note f = \<open>pending_security_question s = Some q\<close> Some
      consider (g) "?a \<in> set grant_answers"
        | (d) "?a \<notin> set grant_answers" "?a \<in> set deny_answers"
        | (o) "?a \<notin> set grant_answers" "?a \<notin> set deny_answers" "?a \<in> set once_answers"
        | (u) "?a \<notin> set grant_answers" "?a \<notin> set deny_answers" "?a \<notin> set once_answers"
        by blast
      then show ?thesis
      proof cases
        case g
        have "\<exists>url msg. snd (handle_security_response e a s)
                = snd (open_after_grant e url msg
                    ((log_call (AddTrusted ?d) s)\<lparr> security_brain := Some (snd (add_to_trusted ?d sb)) \<rparr>))"
          using f g by (simp add: handle_security_response_def Let_def) blast
        then show ?thesis using not_resolution_simps(1) by blast
      next
        case d
        have "snd (handle_security_response e a s)
                = (log_call (AddBlocked ?d) s)\<lparr> security_brain := Some (snd (add_to_blocked ?d sb)),
                                                 pending_security_question := None \<rparr>"
          using f d by (simp add: handle_security_response_def Let_def)
        then show ?thesis using not_resolution_simps(2) by blast
      next
        case o
        have "\<exists>url msg. snd (handle_security_response e a s)
                = snd (open_after_grant e url msg
                    ((log_call (AddOneTime ?d) s)\<lparr> security_brain := Some (snd (add_to_one_time ?d sb)) \<rparr>))"
          using f o by (simp add: handle_security_response_def Let_def) blast
        then show ?thesis using not_resolution_simps(3) by blast
      next
        case u
        have "snd (handle_security_response e a s) = s"
          using f u by (simp add: handle_security_response_def Let_def)
        then show ?thesis by blast
      qed
    qed
    then show ?thesis by blast
  qed
qed

lemma handle_security_response_props:
  "pending_decision_clarification (snd (handle_security_response e a s)) = pending_decision_clarification s"
  "extends_calls not_resolution s (snd (handle_security_response e a s))"
proof -
  show "pending_decision_clarification (snd (handle_security_response e a s)) = pending_decision_clarification s"
    by (simp add: handle_security_response_def Let_def open_after_grant_props log_call_def
        split: option.splits)
  from handle_security_response_outcomes[of s e a] obtain t url msg where
    t: "t = s \<or> (\<exists>c x. not_resolution c \<and> t = (log_call c s)\<lparr> security_brain := x \<rparr>)"
    and r: "snd (handle_security_response e a s) = snd (open_after_grant e url msg t)
          \<or> snd (handle_security_response e a s) = t\<lparr> pending_security_question := None \<rparr>
          \<or> snd (handle_security_response e a s) = s"
    by blast
  from t have te: "extends_calls not_resolution s t"
    by (auto simp: extends_calls_def log_call_def)
  from r show "extends_calls not_resolution s (snd (handle_security_response e a s))"
    using extends_calls_trans[OF te open_after_grant_props(3)] te
    by (auto simp: extends_calls_def)
qed

lemma handle_command_props:
  assumes "at_most_one_pending s"
  shows "at_most_one_pending (snd (handle_command e c s))"
    and "extends_calls unflagged s (snd (handle_command e c s))"
proof -
  let ?s1 = "s\<lparr> commands_processed := commands_processed s + 1, last_command := Some c \<rparr>"
  have c1: "calls ?s1 = calls s" by simp
  have both: "at_most_one_pending (snd (handle_command e c s))
      \<and> extends_calls unflagged s (snd (handle_command e c s))"
  proof (cases "pending_security_question s")
    case (Some q)
    with assms have nc: "pending_decision_clarification s = None"
      by (simp add: at_most_one_pending_def)
    have r: "snd (handle_command e c s)
        = count_result (success_result (Some (fst (handle_security_response e c ?s1))) ''SecurityBrain'')
            (snd (handle_security_response e c ?s1))"
      by (simp add: handle_command_security[OF Some] Let_def)
    have "pending_decision_clarification (snd (handle_security_response e c ?s1)) = None"
      using nc by (simp add: handle_security_response_props(1))
    moreover have "extends_calls unflagged ?s1 (snd (handle_security_response e c ?s1))"
      by (rule extends_calls_mono[OF not_resolution_unflagged handle_security_response_props(2)])
    ultimately show ?thesis
      unfolding r by (simp add: at_most_one_pending_def extends_calls_def)
  next
    case None
    show ?thesis
    proof (cases "pending_decision_clarification s")
      case (Some ctx)
      have r: "snd (handle_command e c s)
          = count_result (fst (handle_decision_clarification e c ?s1))
              (snd (handle_decision_clarification e c ?s1))"
        using None Some by (simp add: handle_command_def Let_def split: prod.splits)
      have q1: "pending_security_question ?s1 = None" and p1: "pending_decision_clarification ?s1 = Some ctx"
        using None Some by simp_all
      from handle_decision_clarification_props(1,2)[OF q1 p1, of e c]
      show ?thesis unfolding r by (simp add: at_most_one_pending_def extends_calls_def)
    next
      case nc: None
      have r: "snd (handle_command e c s)
          = count_result (fst (process_command_enhanced e c ?s1))
              (snd (process_command_enhanced e c ?s1))"
        using None nc by (simp add: handle_command_def Let_def split: prod.splits)
      have q1: "pending_security_question ?s1 = None" and p1: "pending_decision_clarification ?s1 = None"
        using None nc by simp_all
      from process_command_enhanced_props[OF q1 p1, of e c]
      show ?thesis unfolding r by (simp add: at_most_one_pending_def extends_calls_def)
    qed
  qed
  from both show "at_most_one_pending (snd (handle_command e c s))" by simp
  from both show "extends_calls unflagged s (snd (handle_command e c s))" by simp
qed

lemma run_commands_props:
  "at_most_one_pending s \<Longrightarrow>
   at_most_one_pending (run_commands cs s) \<and> extends_calls unflagged s (run_commands cs s)"
proof (induction cs arbitrary: s)
  case Nil
  then show ?case by simp
next
  case (Cons ec cs)
  obtain e c where ec: "ec = (e, c)" by (cases ec)
  note h = handle_command_props[OF Cons.prems, of e c]
  from Cons.IH[OF h(1)] h(2) show ?case
    by (auto simp: ec intro: extends_calls_trans)
qed

lemma handle_command_routed_security:
  assumes "pending_security_question s \<noteq> None"
  shows "cr_source_brain (fst (handle_command e c s)) = ''SecurityBrain''"
    and "extends_calls not_resolution s (snd (handle_command e c s))"
proof -
  let ?s1 = "s\<lparr> commands_processed := commands_processed s + 1, last_command := Some c \<rparr>"
  from assms obtain q where q: "pending_security_question s = Some q" by auto
  show "cr_source_brain (fst (handle_command e c s)) = ''SecurityBrain''"
    by (simp add: handle_command_security[OF q] Let_def success_result_def)
  have "extends_calls not_resolution ?s1 (snd (handle_security_response e c ?s1))"
    by (rule handle_security_response_props(2))
  then show "extends_calls not_resolution s (snd (handle_command e c s))"
    by (simp add: handle_command_security[OF q] Let_def extends_calls_def)
qed

lemma handle_command_routed_clarification:
  assumes "pending_security_question s = None"
      and "pending_decision_clarification s = Some ctx"
      and "decision_brain s \<noteq> None"
  shows "\<exists>rest. new_calls s (snd (handle_command e c s))
           = HandleClarificationResponse (cc_original_command ctx) c # rest"
proof -
  let ?s1 = "s\<lparr> commands_processed := commands_processed s + 1, last_command := Some c \<rparr>"
  have r: "snd (handle_command e c s)
      = count_result (fst (handle_decision_clarification e c ?s1))
          (snd (handle_decision_clarification e c ?s1))"
    using assms(1,2) by (simp add: handle_command_def Let_def split: prod.splits)
  have q1: "pending_security_question ?s1 = None" and p1: "pending_decision_clarification ?s1 = Some ctx"
    and d1: "decision_brain ?s1 \<noteq> None"
    using assms by simp_all
  from handle_decision_clarification_props(3)[OF q1 p1 d1, of e c]
  show ?thesis unfolding r by (auto simp: new_calls_def)
qed

text \<open>
  C1. At most one interrupt is pending at any time: from a state in which not both a
  security question and a clarification are pending, every sequence of commands, whatever
  the collaborators answer, leads to such a state again, and no call of \<open>make_decision\<close> in
  the whole sequence is made while an interrupt is pending. A command that arrives while
  a security question is pending is answered by the security handler and causes no call
  of \<open>make_decision\<close> or \<open>handle_clarification_response\<close>; a command that arrives while a
  clarification is pending (and the decision brain is loaded) goes first to
  \<open>handle_clarification_response\<close> with the original command.
\<close>

theorem single_pending_interrupt:
  assumes "at_most_one_pending s"
  shows "at_most_one_pending (run_commands cs s)
       \<and> (\<forall>x. MakeDecision x True \<notin> set (new_calls s (run_commands cs s)))
       \<and> (\<forall>e c. pending_security_question s \<noteq> None \<longrightarrow>
             cr_source_brain (fst (handle_command e c s)) = ''SecurityBrain''
             \<and> (\<forall>x y p. MakeDecision x p \<notin> set (new_calls s (snd (handle_command e c s)))
                      \<and> HandleClarificationResponse x y \<notin> set (new_calls s (snd (handle_command e c s)))))
       \<and> (\<forall>e c ctx. pending_security_question s = None
                    \<and> pending_decision_clarification s = Some ctx \<and> decision_brain s \<noteq> None \<longrightarrow>
             take 1 (new_calls s (snd (handle_command e c s)))
               = [HandleClarificationResponse (cc_original_command ctx) c])"
proof (intro conjI allI impI)
  from run_commands_props[OF assms, of cs]
  show "at_most_one_pending (run_commands cs s)" by simp
next
  fix x
  from run_commands_props[OF assms, of cs]
  have "extends_calls unflagged s (run_commands cs s)" by simp
  then have "\<forall>y\<in>set (new_calls s (run_commands cs s)). unflagged y"
    by (rule extends_calls_new_calls)
  then show "MakeDecision x True \<notin> set (new_calls s (run_commands cs s))"
    by (auto simp: unflagged_def)
next
  fix e c
  assume p: "pending_security_question s \<noteq> None"
  from handle_command_routed_security(1)[OF p]
  show "cr_source_brain (fst (handle_command e c s)) = ''SecurityBrain''" .
  fix x y p'
  from handle_command_routed_security(2)[OF p, of e c]
  have n: "\<forall>z\<in>set (new_calls s (snd (handle_command e c s))). not_resolution z"
    by (rule extends_calls_new_calls)
  from n show "MakeDecision x p' \<notin> set (new_calls s (snd (handle_command e c s)))"
    by auto
  from n show "HandleClarificationResponse x y \<notin> set (new_calls s (snd (handle_command e c s)))"
    by auto
next
  fix e c ctx
  assume "pending_security_question s = None
          \<and> pending_decision_clarification s = Some ctx \<and> decision_brain s \<noteq> None"
  then have a: "pending_security_question s = None" "pending_decision_clarification s = Some ctx"
    "decision_brain s \<noteq> None" by simp_all
  from handle_command_routed_clarification[OF a, of e c]
  show "take 1 (new_calls s (snd (handle_command e c s)))
        = [HandleClarificationResponse (cc_original_command ctx) c]"
    by auto
qed

lemma clarifying_example:
  "pending_security_question example_cns_clarifying = None"
  "map_option cc_original_command (pending_decision_clarification example_cns_clarifying)
     = Some ''play something''"
  "decision_brain example_cns_clarifying \<noteq> None"
proof -
  have "new_brain ''night'' = (new_brain ''night'')\<lparr> session_context := \<lparr> last_intent = None, time_of_day = ''night'' \<rparr> \<rparr>"
    by (simp add: new_brain_def)
  with play_something_any_context[where t = "''night''" and ctx = "\<lparr> last_intent = None, time_of_day = ''night'' \<rparr>"]
  obtain r where r: "fst (make_decision (new_brain ''night'') ''play something'') = Some r"
    "\<not> dr_success r" "dr_clarification_needed r"
    by auto
  obtain b' where m: "make_decision (new_brain ''night'') ''play something'' = (Some r, b')"
    using r(1) by (cases "make_decision (new_brain ''night'') ''play something''") simp
  have s: "snd (handle_command example_env ''play something''
            (new_cns (Some (new_brain ''night'')) (Some (new_security_brain [] [] []))))
      = count_result
          \<lparr> cr_success = False, cr_response = Some [], cr_source_brain = ''DecisionBrain'',
            cr_requires_clarification = True, cr_clarification_message = dr_clarification_message r \<rparr>
          ((log_call (MakeDecision ''play something'' False)
             ((new_cns (Some (new_brain ''night'')) (Some (new_security_brain [] [] [])))
                \<lparr> commands_processed := 1, last_command := Some ''play something'' \<rparr>))
            \<lparr> decision_brain := Some b',
              pending_decision_clarification :=
                Some \<lparr> cc_original_command = ''play something'', cc_decision_result = r \<rparr> \<rparr>)"
    using r(2,3)
    by (simp add: handle_command_def new_cns_def process_command_enhanced_def Let_def m
        interrupt_pending_def)
  show "pending_security_question example_cns_clarifying = None"
    unfolding example_cns_clarifying_def s by (simp add: log_call_def new_cns_def)
  show "map_option cc_original_command (pending_decision_clarification example_cns_clarifying)
     = Some ''play something''"
    unfolding example_cns_clarifying_def s by simp
  show "decision_brain example_cns_clarifying \<noteq> None"
    unfolding example_cns_clarifying_def s by simp
qed

theorem single_pending_interrupt_witness:
  "at_most_one_pending example_cns
   \<and> at_most_one_pending
       (run_commands [(example_env, ''open example.com''), (example_env, ''no'')] example_cns)
   \<and> pending_security_question example_cns_pending \<noteq> None
   \<and> cr_source_brain (fst (handle_command example_env ''no'' example_cns_pending)) = ''SecurityBrain''
   \<and> pending_security_question example_cns_clarifying = None
   \<and> map_option cc_original_command (pending_decision_clarification example_cns_clarifying)
       = Some ''play something''
   \<and> decision_brain example_cns_clarifying \<noteq> None
   \<and> take 1 (new_calls example_cns_clarifying
               (snd (handle_command example_env ''music'' example_cns_clarifying)))
       = [HandleClarificationResponse ''play something'' ''music'']"
proof -
  have a0: "at_most_one_pending example_cns"
    by (simp add: at_most_one_pending_def example_cns_def new_cns_def)
  have a1: "at_most_one_pending example_cns_pending"
    using single_pending_interrupt[OF a0, of "[(example_env, ''open example.com'')]"]
    by (simp add: example_cns_pending_def)
  have a2: "at_most_one_pending example_cns_clarifying"
    by (simp add: at_most_one_pending_def clarifying_example(1))
  have p: "pending_security_question example_cns_pending \<noteq> None"
    by (simp add: example_cns_pending_def pending_after_open)
  from clarifying_example(2) obtain ctx where
    ctx: "pending_decision_clarification example_cns_clarifying = Some ctx"
         "cc_original_command ctx = ''play something''"
    by auto
  from single_pending_interrupt[OF a0, of "[(example_env, ''open example.com''), (example_env, ''no'')]"]
  have 1: "at_most_one_pending
       (run_commands [(example_env, ''open example.com''), (example_env, ''no'')] example_cns)"
    by blast
  from single_pending_interrupt[OF a1, of "[]"] p
  have 2: "cr_source_brain (fst (handle_command example_env ''no'' example_cns_pending)) = ''SecurityBrain''"
    by blast
  from single_pending_interrupt[OF a2, of "[]"] clarifying_example(1,3) ctx
  have 3: "take 1 (new_calls example_cns_clarifying
               (snd (handle_command example_env ''music'' example_cns_clarifying)))
       = [HandleClarificationResponse ''play something'' ''music'']"
    by metis
  from a0 1 p 2 clarifying_example 3 show ?thesis by blast
qed

section \<open>The scores of the resolver\<close>

text \<open>The loops of the resolver as a running best over the list of scored patterns.\<close>

lemma pattern_confidence_spec:
  "pattern_confidence base m cl = Inr pc \<Longrightarrow> pc = spec_raw_score base (group0 m) cl"
  by (auto simp: pattern_confidence_def spec_raw_score_def split: if_splits)

lemma scan_patterns_fold:
  "scan_patterns ex command cl base ps b = Inr b' \<Longrightarrow>
   (fst b', fst (snd b')) = fold keep_best (spec_tier_scores base ps cl) (fst b, fst (snd b))"
proof (induction ps arbitrary: b)
  case Nil
  then show ?case by (simp add: spec_tier_scores_def)
next
  case (Cons p ps)
  show ?case
  proof (cases "re_search False (snd p) cl")
    case None
    with Cons.prems have "scan_patterns ex command cl base ps b = Inr b'" by simp
    from Cons.IH[OF this] None show ?thesis by (simp add: spec_tier_scores_def)
  next
    case (Some m)
    with Cons.prems obtain pc ents where
      pc: "pattern_confidence base m cl = Inr pc"
      and rest: "scan_patterns ex command cl base ps (if pc > fst b then (pc, fst p, ents) else b) = Inr b'"
      by (auto split: sum.splits)
    from pattern_confidence_spec[OF pc] have pcs: "pc = spec_raw_score base (group0 m) cl" .
    from Cons.IH[OF rest] Some pcs show ?thesis
      by (simp add: spec_tier_scores_def keep_best_def)
  qed
qed

lemma scan_levels_fold:
  "scan_levels ex command cl pg ls b = Inr b' \<Longrightarrow>
   (fst b', fst (snd b')) =
     fold keep_best
       (concat (map (\<lambda>(level, base). case map_of pg level of None \<Rightarrow> []
                                       | Some ps \<Rightarrow> spec_tier_scores base ps cl) ls))
       (fst b, fst (snd b))"
proof (induction ls arbitrary: b)
  case Nil
  then show ?case by simp
next
  case (Cons l ls)
  obtain level base where l: "l = (level, base)" by (cases l)
  show ?case
  proof (cases "map_of pg level")
    case None
    with Cons.prems l have "scan_levels ex command cl pg ls b = Inr b'" by simp
    from Cons.IH[OF this] None l show ?thesis by simp
  next
    case (Some ps)
    with Cons.prems l obtain b1 where
      b1: "scan_patterns ex command cl base ps b = Inr b1"
      and rest: "scan_levels ex command cl pg ls b1 = Inr b'"
      by (auto split: sum.splits)
    from Cons.IH[OF rest] scan_patterns_fold[OF b1] Some l show ?thesis by simp
  qed
qed

lemma fold_keep_best:
  "fold keep_best xs acc = acc \<and> (\<forall>x\<in>set xs. fst x \<le> fst acc)
   \<or> fold keep_best xs acc \<in> set xs \<and> fst acc < fst (fold keep_best xs acc)
     \<and> (\<forall>x\<in>set xs. fst x \<le> fst (fold keep_best xs acc))"
proof (induction xs arbitrary: acc)
  case Nil
  then show ?case by simp
next
  case (Cons x xs)
  show ?case
  proof (cases "fst x > fst acc")
    case True
    then have k: "keep_best x acc = x" by (simp add: keep_best_def)
    from Cons.IH[of x] True show ?thesis
      by (auto simp: k)
  next
    case False
    then have k: "keep_best x acc = acc" by (simp add: keep_best_def)
    from Cons.IH[of acc] False show ?thesis
      by (auto simp: k)
  qed
qed

lemma spec_raw_score_pos: "0 < base \<Longrightarrow> 0 < spec_raw_score base matched utterance"
proof -
  assume b: "0 < base"
  have "0 \<le> (1 / 10) * (of_nat (length matched) / of_nat (length utterance) :: rat)"
    by simp
  with b show ?thesis unfolding spec_raw_score_def
    by (simp add: add_pos_nonneg)
qed

lemma spec_tier_scores_pos: "0 < base \<Longrightarrow> \<forall>x \<in> set (spec_tier_scores base ps cl). 0 < fst x"
  by (auto simp: spec_tier_scores_def spec_raw_score_pos split: option.splits)

lemma spec_pattern_scores_pos: "\<forall>x \<in> set (spec_pattern_scores pg cl). 0 < fst x"
proof -
  have t: "0 < fst x" if "x \<in> set (spec_tier_scores base ps cl)" "0 < base" for x base ps
    using spec_tier_scores_pos[OF that(2)] that(1) by blast
  show ?thesis
    by (auto simp: spec_pattern_scores_def split: option.splits dest!: t)
qed

lemma spec_pattern_scores_levels:
  "spec_pattern_scores pg cl =
     concat (map (\<lambda>(level, base). case map_of pg level of None \<Rightarrow> []
                                       | Some ps \<Rightarrow> spec_tier_scores base ps cl) confidence_levels)"
  by (simp add: spec_pattern_scores_def confidence_levels_def)

text \<open>What the three tiers leave as the best of one intent.\<close>

lemma scan_levels_best:
  assumes "scan_levels ex command cl pg confidence_levels (0, [], []) = Inr (bc, bp, be)"
  shows "(spec_pattern_scores pg cl = [] \<longrightarrow> bc = 0)
       \<and> (spec_pattern_scores pg cl \<noteq> [] \<longrightarrow>
            0 < bc \<and> (bc, bp) \<in> set (spec_pattern_scores pg cl)
            \<and> (\<forall>x\<in>set (spec_pattern_scores pg cl). fst x \<le> bc))"
proof -
  from scan_levels_fold[OF assms]
  have f: "(bc, bp) = fold keep_best (spec_pattern_scores pg cl) (0, [])"
    by (simp add: spec_pattern_scores_levels)
  let ?xs = "spec_pattern_scores pg cl"
  note pos = spec_pattern_scores_pos[of pg cl]
  have "(bc, bp) = (0, []) \<and> (\<forall>x\<in>set ?xs. fst x \<le> 0)
        \<or> (bc, bp) \<in> set ?xs \<and> 0 < bc \<and> (\<forall>x\<in>set ?xs. fst x \<le> bc)"
    using fold_keep_best[of ?xs "(0, [])"] unfolding f[symmetric] by simp
  then consider (same) "(bc, bp) = (0, [])" "\<forall>x\<in>set ?xs. fst x \<le> 0"
    | (new) "(bc, bp) \<in> set ?xs" "0 < bc" "\<forall>x\<in>set ?xs. fst x \<le> bc"
    by blast
  then show ?thesis
  proof cases
    case same
    have "?xs = []"
    proof (cases ?xs)
      case Nil
      then show ?thesis .
    next
      case (Cons x xs)
      with same(2) pos have "fst x \<le> 0" "0 < fst x" by simp_all
      then show ?thesis by simp
    qed
    with same(1) show ?thesis by simp
  next
    case new
    then have "?xs \<noteq> []" by auto
    with new show ?thesis by simp
  qed
qed

lemma spec_tier_scores_mem:
  "(s, t) \<in> set (spec_tier_scores base ps cl) \<longleftrightarrow>
     (\<exists>p mo. p \<in> set ps \<and> re_search False (snd p) cl = Some mo
        \<and> t = fst p \<and> s = spec_raw_score base (group0 mo) cl)"
proof (induction ps)
  case Nil
  then show ?case by (simp add: spec_tier_scores_def)
next
  case (Cons q ps)
  let ?R = "\<lambda>p mo. re_search False (snd p) cl = Some mo
        \<and> t = fst p \<and> s = spec_raw_score base (group0 mo) cl"
  let ?X = "case re_search False (snd q) cl of None \<Rightarrow> []
         | Some m \<Rightarrow> [(spec_raw_score base (group0 m) cl, fst q)]"
  have step: "spec_tier_scores base (q # ps) cl = ?X @ spec_tier_scores base ps cl"
    by (simp add: spec_tier_scores_def)
  have hd: "(s, t) \<in> set ?X \<longleftrightarrow> (\<exists>mo. ?R q mo)"
    by (cases "re_search False (snd q) cl") auto
  have "(s, t) \<in> set (spec_tier_scores base (q # ps) cl)
      \<longleftrightarrow> (s, t) \<in> set ?X \<or> (s, t) \<in> set (spec_tier_scores base ps cl)"
    unfolding step by simp
  also have "\<dots> \<longleftrightarrow> (\<exists>mo. ?R q mo) \<or> (\<exists>p mo. p \<in> set ps \<and> ?R p mo)"
    unfolding hd Cons.IH ..
  also have "\<dots> \<longleftrightarrow> (\<exists>p mo. p \<in> set (q # ps) \<and> ?R p mo)"
    by (simp only: set_simps insert_iff) blast
  finally show ?case .
qed

lemma spec_pattern_scores_origin:
  assumes "(s, t) \<in> set (spec_pattern_scores pg cl)"
  shows "\<exists>level base ps p mo. (level, base) \<in> set confidence_levels \<and> map_of pg level = Some ps
           \<and> p \<in> set ps \<and> re_search False (snd p) cl = Some mo
           \<and> t = fst p \<and> s = spec_raw_score base (group0 mo) cl"
proof -
  from assms obtain lb where lb: "lb \<in> set confidence_levels"
    and inl: "(s, t) \<in> set (case lb of (level, base) \<Rightarrow>
                 (case map_of pg level of None \<Rightarrow> [] | Some ps \<Rightarrow> spec_tier_scores base ps cl))"
    unfolding spec_pattern_scores_levels set_concat set_map by blast
  obtain level base where lbe: "lb = (level, base)" by (cases lb)
  from inl obtain ps where ps: "map_of pg level = Some ps"
    and st: "(s, t) \<in> set (spec_tier_scores base ps cl)"
    unfolding lbe by (cases "map_of pg level") simp_all
  from lb have l: "(level, base) \<in> set confidence_levels" by (simp add: lbe)
  from st have "\<exists>p mo. p \<in> set ps \<and> re_search False (snd p) cl = Some mo
    \<and> t = fst p \<and> s = spec_raw_score base (group0 mo) cl"
    by (simp add: spec_tier_scores_mem)
  with l ps show ?thesis by blast
qed

lemma scan_intents_spec:
  "scan_intents ex command cl bank acc = Inr ms \<Longrightarrow>
   \<exists>new. ms = acc @ new
     \<and> map intent new = map fst (filter (\<lambda>(i, pg). spec_pattern_scores pg cl \<noteq> []) bank)
     \<and> (\<forall>m\<in>set new. \<exists>pg s. (intent m, pg) \<in> set bank
            \<and> (s, matched_pattern m) \<in> set (spec_pattern_scores pg cl)
            \<and> (\<forall>x\<in>set (spec_pattern_scores pg cl). fst x \<le> s)
            \<and> confidence m = min 1 s)"
proof (induction bank arbitrary: acc)
  case Nil
  then show ?case by simp
next
  case (Cons ip bank)
  obtain i pg where ip: "ip = (i, pg)" by (cases ip)
  from Cons.prems obtain bc bp be where
    lv: "scan_levels ex command cl pg confidence_levels (0, [], []) = Inr (bc, bp, be)"
    and rest: "scan_intents ex command cl bank
            (if bc > 0 then acc @ [\<lparr> intent = i, confidence = min bc 1,
                     matched_pattern = bp, extracted_entities = be \<rparr>] else acc) = Inr ms"
    by (auto simp: ip split: sum.splits)
  note best = scan_levels_best[OF lv]
  from Cons.IH[OF rest] obtain new where
    new: "ms = (if bc > 0 then acc @ [\<lparr> intent = i, confidence = min bc 1,
                     matched_pattern = bp, extracted_entities = be \<rparr>] else acc) @ new"
    and ints: "map intent new = map fst (filter (\<lambda>(i, pg). spec_pattern_scores pg cl \<noteq> []) bank)"
    and each: "\<forall>m\<in>set new. \<exists>pg s. (intent m, pg) \<in> set bank
            \<and> (s, matched_pattern m) \<in> set (spec_pattern_scores pg cl)
            \<and> (\<forall>x\<in>set (spec_pattern_scores pg cl). fst x \<le> s)
            \<and> confidence m = min 1 s"
    by blast
  have each': "\<forall>m\<in>set new. \<exists>pg s. (intent m, pg) \<in> set (ip # bank)
            \<and> (s, matched_pattern m) \<in> set (spec_pattern_scores pg cl)
            \<and> (\<forall>x\<in>set (spec_pattern_scores pg cl). fst x \<le> s)
            \<and> confidence m = min 1 s"
    using each by (meson list.set_intros(2))
  show ?case
  proof (cases "spec_pattern_scores pg cl = []")
    case True
    with best have "bc = 0" by simp
    with new ints each' True show ?thesis
      by (intro exI[of _ new]) (simp add: ip)
  next
    case False
    with best have b: "0 < bc" "(bc, bp) \<in> set (spec_pattern_scores pg cl)"
      "\<forall>x\<in>set (spec_pattern_scores pg cl). fst x \<le> bc" by simp_all
    let ?m = "\<lparr> intent = i, confidence = min bc 1, matched_pattern = bp, extracted_entities = be \<rparr>"
    have m: "\<exists>pg s. (intent ?m, pg) \<in> set (ip # bank)
            \<and> (s, matched_pattern ?m) \<in> set (spec_pattern_scores pg cl)
            \<and> (\<forall>x\<in>set (spec_pattern_scores pg cl). fst x \<le> s)
            \<and> confidence ?m = min 1 s"
      using b by (intro exI[of _ pg] exI[of _ bc]) (simp add: ip min.commute)
    from new b(1) have "ms = acc @ (?m # new)" by simp
    moreover have "map intent (?m # new)
        = map fst (filter (\<lambda>(i, pg). spec_pattern_scores pg cl \<noteq> []) (ip # bank))"
      using ints False by (simp add: ip)
    moreover have "\<forall>m\<in>set (?m # new). \<exists>pg s. (intent m, pg) \<in> set (ip # bank)
            \<and> (s, matched_pattern m) \<in> set (spec_pattern_scores pg cl)
            \<and> (\<forall>x\<in>set (spec_pattern_scores pg cl). fst x \<le> s)
            \<and> confidence m = min 1 s"
      using m each' by simp
    ultimately show ?thesis by blast
  qed
qed

lemma boosted_keeps_intent_pattern:
  "mset (map (\<lambda>m. (intent m, matched_pattern m)) (apply_context_boosting ctx (sort_by_confidence ms)))
   = mset (map (\<lambda>m. (intent m, matched_pattern m)) ms)"
proof -
  let ?g = "\<lambda>m. (intent m, matched_pattern m)"
  have srt: "mset (map ?g (sort_by_confidence xs)) = mset (map ?g xs)" for xs
    by (simp add: sort_by_confidence_def)
  have bst: "map ?g (map (boost_time (time_of_day ctx)) (map (boost_last_intent (last_intent ctx)) xs))
        = map ?g xs" for xs
    by (simp add: boost_time_fields boost_last_intent_fields)
  have "mset (map ?g (apply_context_boosting ctx (sort_by_confidence ms)))
        = mset (map ?g (map (boost_time (time_of_day ctx))
                          (map (boost_last_intent (last_intent ctx)) (sort_by_confidence ms))))"
    unfolding apply_context_boosting_def by (rule srt)
  also have "\<dots> = mset (map ?g (sort_by_confidence ms))"
    by (simp only: bst)
  also have "\<dots> = mset (map ?g ms)" by (rule srt)
  finally show ?thesis .
qed

text \<open>
  C2. For every utterance and every intent of the pattern bank, the resolver scores a
  pattern that matches the lower-cased, trimmed utterance as the base confidence of its
  tier (0.9, 0.6, 0.3), plus 0.1 if the match is the whole utterance, plus 0.1 times the
  ratio of the length of the match to the length of the utterance, capped at 1. Per
  intent it keeps one (tier, pattern) pair, one of the highest sum over all tiers
  (nothing is added up across tiers), and an intent is a candidate exactly when one of
  its patterns matches, its score being positive then. The output of the resolver holds
  the candidates, with their intents and patterns, after boosting and sorting. The
  numbers are rationals here; the statement is about a call of the resolver that returns
  a list.
\<close>

theorem resolver_scoring:
  assumes "determine_intent_with_confidence b command = Inr out"
  shows "\<exists>cands. scan_intents (entity_extractors b) command (str_strip (str_lower command))
                    (intent_patterns b) [] = Inr cands
           \<and> mset (map (\<lambda>m. (intent m, matched_pattern m)) out)
               = mset (map (\<lambda>m. (intent m, matched_pattern m)) cands)
           \<and> map intent cands
               = map fst (filter (\<lambda>(i, pattern_groups).
                                     spec_pattern_scores pattern_groups (str_strip (str_lower command)) \<noteq> [])
                                 (intent_patterns b))
           \<and> (\<forall>m\<in>set cands. \<exists>pattern_groups level base ps p mo.
                  (intent m, pattern_groups) \<in> set (intent_patterns b)
                  \<and> (level, base) \<in> set confidence_levels \<and> map_of pattern_groups level = Some ps
                  \<and> p \<in> set ps \<and> re_search False (snd p) (str_strip (str_lower command)) = Some mo
                  \<and> matched_pattern m = fst p
                  \<and> confidence m = spec_score base (group0 mo) (str_strip (str_lower command))
                  \<and> 0 < confidence m
                  \<and> (\<forall>x\<in>set (spec_pattern_scores pattern_groups (str_strip (str_lower command))).
                         fst x \<le> spec_raw_score base (group0 mo) (str_strip (str_lower command))))"
proof -
  let ?cl = "str_strip (str_lower command)"
  from assms obtain cands where
    sc: "scan_intents (entity_extractors b) command ?cl (intent_patterns b) [] = Inr cands"
    and out: "out = apply_context_boosting (session_context b) (sort_by_confidence cands)"
    by (auto simp: determine_intent_with_confidence_def Let_def split: sum.splits)
  from scan_intents_spec[OF sc] have
    ints: "map intent cands
           = map fst (filter (\<lambda>(i, pg). spec_pattern_scores pg ?cl \<noteq> []) (intent_patterns b))"
    and each: "\<forall>m\<in>set cands. \<exists>pg s. (intent m, pg) \<in> set (intent_patterns b)
            \<and> (s, matched_pattern m) \<in> set (spec_pattern_scores pg ?cl)
            \<and> (\<forall>x\<in>set (spec_pattern_scores pg ?cl). fst x \<le> s)
            \<and> confidence m = min 1 s"
    by auto
  have each': "\<exists>pg level base ps p mo.
                  (intent m, pg) \<in> set (intent_patterns b)
                  \<and> (level, base) \<in> set confidence_levels \<and> map_of pg level = Some ps
                  \<and> p \<in> set ps \<and> re_search False (snd p) ?cl = Some mo
                  \<and> matched_pattern m = fst p
                  \<and> confidence m = spec_score base (group0 mo) ?cl
                  \<and> 0 < confidence m
                  \<and> (\<forall>x\<in>set (spec_pattern_scores pg ?cl). fst x \<le> spec_raw_score base (group0 mo) ?cl)"
    if "m \<in> set cands" for m
  proof -
    from each that obtain pg s where
      a: "(intent m, pg) \<in> set (intent_patterns b)"
         "(s, matched_pattern m) \<in> set (spec_pattern_scores pg ?cl)"
         "\<forall>x\<in>set (spec_pattern_scores pg ?cl). fst x \<le> s" "confidence m = min 1 s"
      by blast
    from spec_pattern_scores_origin[OF a(2)] obtain level base ps p mo where
      o: "(level, base) \<in> set confidence_levels" "map_of pg level = Some ps" "p \<in> set ps"
         "re_search False (snd p) ?cl = Some mo" "matched_pattern m = fst p"
         "s = spec_raw_score base (group0 mo) ?cl"
      by blast
    from spec_pattern_scores_pos[of pg ?cl] a(2) have "0 < s" by auto
    with a(4) have "0 < confidence m" by simp
    with a o show ?thesis
      unfolding spec_score_def by blast
  qed
  from sc boosted_keeps_intent_pattern[of "session_context b" cands] ints each' show ?thesis
    unfolding out by blast
qed

theorem resolver_scoring_witness:
  "determine_intent_with_confidence (new_brain ''afternoon'') ''open notepad''
     = Inr [\<lparr>intent = ''launch_app'', confidence = 1,
            matched_pattern = re_text [''open'', ''s+(notepad|calculator|paint|word|excel)''],
            extracted_entities = [(''primary_entity'', Some ''notepad'')]\<rparr>]
   \<and> (\<exists>cands. scan_intents (entity_extractors (new_brain ''afternoon'')) ''open notepad''
                    (str_strip (str_lower ''open notepad''))
                    (intent_patterns (new_brain ''afternoon'')) [] = Inr cands
           \<and> mset (map (\<lambda>m. (intent m, matched_pattern m))
                  [\<lparr>intent = ''launch_app'', confidence = 1,
                    matched_pattern = re_text [''open'', ''s+(notepad|calculator|paint|word|excel)''],
                    extracted_entities = [(''primary_entity'', Some ''notepad'')]\<rparr>])
               = mset (map (\<lambda>m. (intent m, matched_pattern m)) cands)
           \<and> map intent cands
               = map fst (filter (\<lambda>(i, pattern_groups).
                                     spec_pattern_scores pattern_groups (str_strip (str_lower ''open notepad'')) \<noteq> [])
                                 (intent_patterns (new_brain ''afternoon'')))
           \<and> (\<forall>m\<in>set cands. \<exists>pattern_groups level base ps p mo.
                  (intent m, pattern_groups) \<in> set (intent_patterns (new_brain ''afternoon''))
                  \<and> (level, base) \<in> set confidence_levels \<and> map_of pattern_groups level = Some ps
                  \<and> p \<in> set ps \<and> re_search False (snd p) (str_strip (str_lower ''open notepad'')) = Some mo
                  \<and> matched_pattern m = fst p
                  \<and> confidence m = spec_score base (group0 mo) (str_strip (str_lower ''open notepad''))
                  \<and> 0 < confidence m
                  \<and> (\<forall>x\<in>set (spec_pattern_scores pattern_groups (str_strip (str_lower ''open notepad''))).
                         fst x \<le> spec_raw_score base (group0 mo) (str_strip (str_lower ''open notepad'')))))"
  by (rule conjI[OF determine_open_notepad resolver_scoring[OF determine_open_notepad]])

end
